theory Spec2Isabelle
  imports Main "HOL-Library.Word"
begin

unbundle bit_operations_syntax

section \<open>Machine integers, errors and the byte cursor\<close>

type_synonym byte = "8 word"
type_synonym uint16 = "16 word"
type_synonym int16 = "16 word"
type_synonym uint32 = "32 word"

text \<open>
  The Go error values the decoder can return. \<open>EOF\<close> and \<open>ErrUnexpectedEOF\<close> are
  \<^verbatim>\<open>io.EOF\<close> and \<^verbatim>\<open>io.ErrUnexpectedEOF\<close>; the constructors with arguments are the
  \<^verbatim>\<open>fmt.Errorf\<close> messages of aseprite.go, with the formatted values as arguments.
  \<open>ZlibError\<close> stands for an error of \<^verbatim>\<open>compress/zlib\<close>. The two panics are the
  runtime panics of an index out of range and of a nil pointer dereference.
\<close>

datatype error =
    EOF
  | ErrUnexpectedEOF
  | FailedToReadHeader error
  | InvalidMagicNumber uint16
  | FailedToReadFrame nat error
  | FailedToReadChunk nat error
  | UnsupportedCelType uint16
  | ZlibError
  | NoPixelData
  | FrameIndexOutOfRange int
  | PanicIndexOutOfRange
  | PanicNilDereference

definition bind :: "error + 'a \<Rightarrow> ('a \<Rightarrow> error + 'b) \<Rightarrow> error + 'b" where
  "bind m f = (case m of Inl e \<Rightarrow> Inl e | Inr x \<Rightarrow> f x)"

text \<open>
  \<^verbatim>\<open>bytes.Reader\<close>: the buffer \<open>s\<close> and the read position \<open>i\<close>. \<open>Len\<close> is the number of
  unread bytes, \<open>Size\<close> the length of the whole buffer.
\<close>

record Reader =
  Reader_s :: "byte list"
  Reader_i :: nat

definition NewReader :: "byte list \<Rightarrow> Reader" where
  "NewReader b = \<lparr>Reader_s = b, Reader_i = 0\<rparr>"

definition Len :: "Reader \<Rightarrow> nat" where
  "Len r = (if Reader_i r \<ge> length (Reader_s r) then 0 else length (Reader_s r) - Reader_i r)"

definition Size :: "Reader \<Rightarrow> nat" where
  "Size r = length (Reader_s r)"

text \<open>
  \<^verbatim>\<open>reader.Read(make([]byte, n))\<close> with both results dropped, as the decoder uses it to
  skip reserved bytes: at the end of the buffer nothing happens (the \<^verbatim>\<open>io.EOF\<close> is
  ignored), otherwise the position moves by the number of bytes copied, which is \<open>n\<close>
  or what is left, whichever is smaller.
\<close>

definition Read_skip :: "Reader \<Rightarrow> nat \<Rightarrow> Reader" where
  "Read_skip r n =
     (if Reader_i r \<ge> length (Reader_s r) then r
      else r\<lparr>Reader_i := Reader_i r + length (take n (drop (Reader_i r) (Reader_s r)))\<rparr>)"

text \<open>
  \<^verbatim>\<open>io.ReadFull(reader, buf)\<close> with \<open>len(buf) = n\<close> over a \<^verbatim>\<open>bytes.Reader\<close>: all \<open>n\<close>
  bytes, or \<^verbatim>\<open>io.EOF\<close> when no byte was read, or \<^verbatim>\<open>io.ErrUnexpectedEOF\<close> when some but
  not all were. A buffer of length 0 is always filled.
\<close>

definition ReadFull :: "Reader \<Rightarrow> nat \<Rightarrow> error + (byte list \<times> Reader)" where
  "ReadFull r n =
     (if n \<le> Len r
      then Inr (take n (drop (Reader_i r) (Reader_s r)), r\<lparr>Reader_i := Reader_i r + n\<rparr>)
      else if Len r = 0 then Inl EOF
      else Inl ErrUnexpectedEOF)"

text \<open>\<^verbatim>\<open>binary.LittleEndian\<close> on the bytes read.\<close>

fun LittleEndian_Uint16 :: "byte list \<Rightarrow> uint16" where
  "LittleEndian_Uint16 (b0 # b1 # bs) = ucast b0 OR push_bit 8 (ucast b1)"
| "LittleEndian_Uint16 bs = 0"

fun LittleEndian_Uint32 :: "byte list \<Rightarrow> uint32" where
  "LittleEndian_Uint32 (b0 # b1 # b2 # b3 # bs) =
     ucast b0 OR push_bit 8 (ucast b1) OR push_bit 16 (ucast b2) OR push_bit 24 (ucast b3)"
| "LittleEndian_Uint32 bs = 0"

text \<open>
  \<^verbatim>\<open>binary.Read(reader, binary.LittleEndian, &field)\<close> for a field of 1, 2 or 4 bytes
  (a signed 16-bit field has the same bits; \<open>sint\<close> reads it), and for the
  \<^verbatim>\<open>[3]uint8\<close> colour of a tag.
\<close>

definition binary_Read_uint8 :: "Reader \<Rightarrow> error + (byte \<times> Reader)" where
  "binary_Read_uint8 r = bind (ReadFull r 1) (\<lambda>(bs, r'). Inr (hd bs, r'))"

definition binary_Read_uint16 :: "Reader \<Rightarrow> error + (uint16 \<times> Reader)" where
  "binary_Read_uint16 r = bind (ReadFull r 2) (\<lambda>(bs, r'). Inr (LittleEndian_Uint16 bs, r'))"

definition binary_Read_uint32 :: "Reader \<Rightarrow> error + (uint32 \<times> Reader)" where
  "binary_Read_uint32 r = bind (ReadFull r 4) (\<lambda>(bs, r'). Inr (LittleEndian_Uint32 bs, r'))"

definition binary_Read_bytes3 :: "Reader \<Rightarrow> error + (byte list \<times> Reader)" where
  "binary_Read_bytes3 r = ReadFull r 3"

section \<open>The data model of aseprite.go\<close>

record Header =
  Header_FileSize :: uint32
  Header_MagicNumber :: uint16
  Header_Frames :: uint16
  Header_Width :: uint16
  Header_Height :: uint16
  Header_ColorDepth :: uint16
  Header_Flags :: uint32
  Header_Speed :: uint16
  Header_Transparent :: byte
  Header_Colors :: uint16
  Header_PixelWidth :: byte
  Header_PixelHeight :: byte
  Header_GridX :: int16
  Header_GridY :: int16
  Header_GridWidth :: uint16
  Header_GridHeight :: uint16

record FrameHeader =
  FrameHeader_BytesInFrame :: uint32
  FrameHeader_MagicNumber :: uint16
  FrameHeader_OldChunks :: uint16
  FrameHeader_Duration :: uint16
  FrameHeader_NewChunks :: uint32

record Chunk =
  Chunk_Size :: uint32
  Chunk_Type :: uint16
  Chunk_Data :: "byte list"

record Frame =
  Frame_Header :: FrameHeader
  Frame_Chunks :: "Chunk list"

record Cel =
  Cel_LayerIndex :: uint16
  Cel_X :: int16
  Cel_Y :: int16
  Cel_Opacity :: byte
  Cel_Type :: uint16
  Cel_ZIndex :: int16
  Cel_Width :: uint16
  Cel_Height :: uint16
  Cel_Pixels :: "byte list"

text \<open>A Go string is its bytes: \<open>Tag_Name\<close> is \<^verbatim>\<open>string(nameBytes)\<close>.\<close>

record Tag =
  Tag_Name :: "byte list"
  Tag_FromFrame :: uint16
  Tag_ToFrame :: uint16
  Tag_Direction :: byte
  Tag_Repeat :: uint16
  Tag_Color :: "byte list"

text \<open>
  \<open>File_Frames\<close> is a slice of pointers, made with \<^verbatim>\<open>make([]*Frame, header.Frames)\<close>:
  an entry is \<open>None\<close> (nil) until the frame is stored there.
\<close>

record File =
  File_Header :: Header
  File_Frames :: "Frame option list"
  File_Tags :: "Tag list"

section \<open>Header, chunk and frame decoding\<close>

definition readHeader :: "Reader \<Rightarrow> error + (Header \<times> Reader)" where
  "readHeader reader =
     bind (binary_Read_uint32 reader) (\<lambda>(fileSize, reader).
     bind (binary_Read_uint16 reader) (\<lambda>(magicNumber, reader).
     bind (binary_Read_uint16 reader) (\<lambda>(frames, reader).
     bind (binary_Read_uint16 reader) (\<lambda>(width, reader).
     bind (binary_Read_uint16 reader) (\<lambda>(height, reader).
     bind (binary_Read_uint16 reader) (\<lambda>(colorDepth, reader).
     bind (binary_Read_uint32 reader) (\<lambda>(flags, reader).
     bind (binary_Read_uint16 reader) (\<lambda>(speed, reader).
     bind (binary_Read_uint8 (Read_skip reader 8)) (\<lambda>(transparent, reader).
     bind (binary_Read_uint16 (Read_skip reader 3)) (\<lambda>(colors, reader).
     bind (binary_Read_uint8 reader) (\<lambda>(pixelWidth, reader).
     bind (binary_Read_uint8 reader) (\<lambda>(pixelHeight, reader).
     bind (binary_Read_uint16 reader) (\<lambda>(gridX, reader).
     bind (binary_Read_uint16 reader) (\<lambda>(gridY, reader).
     bind (binary_Read_uint16 reader) (\<lambda>(gridWidth, reader).
     bind (binary_Read_uint16 reader) (\<lambda>(gridHeight, reader).
     Inr (\<lparr>Header_FileSize = fileSize, Header_MagicNumber = magicNumber,
           Header_Frames = frames, Header_Width = width, Header_Height = height,
           Header_ColorDepth = colorDepth, Header_Flags = flags, Header_Speed = speed,
           Header_Transparent = transparent, Header_Colors = colors,
           Header_PixelWidth = pixelWidth, Header_PixelHeight = pixelHeight,
           Header_GridX = gridX, Header_GridY = gridY,
           Header_GridWidth = gridWidth, Header_GridHeight = gridHeight\<rparr>,
          Read_skip reader 84)))))))))))))))))"

text \<open>
  \<open>dataSize\<close> is \<^verbatim>\<open>chunk.Size - 6\<close> on \<^verbatim>\<open>uint32\<close>: the subtraction wraps around below 6.
  The memory that \<^verbatim>\<open>make([]byte, dataSize)\<close> takes is not modelled.
\<close>

definition readChunk :: "Reader \<Rightarrow> error + (Chunk \<times> Reader)" where
  "readChunk reader =
     bind (binary_Read_uint32 reader) (\<lambda>(size, reader).
     bind (binary_Read_uint16 reader) (\<lambda>(type, reader).
     let dataSize = size - 6 in
     bind (ReadFull reader (unat dataSize)) (\<lambda>(data, reader).
     Inr (\<lparr>Chunk_Size = size, Chunk_Type = type, Chunk_Data = data\<rparr>, reader))))"

definition readFrameHeader :: "Reader \<Rightarrow> error + (FrameHeader \<times> Reader)" where
  "readFrameHeader reader =
     bind (binary_Read_uint32 reader) (\<lambda>(bytesInFrame, reader).
     bind (binary_Read_uint16 reader) (\<lambda>(magicNumber, reader).
     bind (binary_Read_uint16 reader) (\<lambda>(oldChunks, reader).
     bind (binary_Read_uint16 reader) (\<lambda>(duration, reader).
     bind (binary_Read_uint32 (Read_skip reader 2)) (\<lambda>(newChunks, reader).
     Inr (\<lparr>FrameHeader_BytesInFrame = bytesInFrame, FrameHeader_MagicNumber = magicNumber,
           FrameHeader_OldChunks = oldChunks, FrameHeader_Duration = duration,
           FrameHeader_NewChunks = newChunks\<rparr>, reader))))))"

definition numChunks :: "FrameHeader \<Rightarrow> uint32" where
  "numChunks frameHeader =
     (if FrameHeader_NewChunks frameHeader = 0 then ucast (FrameHeader_OldChunks frameHeader)
      else FrameHeader_NewChunks frameHeader)"

text \<open>
  The chunk loop of \<^verbatim>\<open>readFrame\<close>, from index \<open>i\<close>. The slice \<^verbatim>\<open>frame.Chunks\<close> is returned
  only when every index below \<open>n\<close> has been stored, so the model collects the chunks read
  so far in order.
\<close>

function readFrame_loop ::
  "nat \<Rightarrow> nat \<Rightarrow> Reader \<Rightarrow> Chunk list \<Rightarrow> error + (Chunk list \<times> Reader)" where
  "readFrame_loop i n reader chunks =
     (if i < n
      then (case readChunk reader of
              Inl err \<Rightarrow> Inl (FailedToReadChunk i err)
            | Inr (chunk, reader') \<Rightarrow> readFrame_loop (i + 1) n reader' (chunks @ [chunk]))
      else Inr (chunks, reader))"
  by pat_completeness auto
termination
  by (relation "measure (\<lambda>(i, n, reader, chunks). n - i)") auto

declare readFrame_loop.simps [simp del]

definition readFrame :: "Reader \<Rightarrow> error + (Frame \<times> Reader)" where
  "readFrame reader =
     bind (readFrameHeader reader) (\<lambda>(frameHeader, reader).
     bind (readFrame_loop 0 (unat (numChunks frameHeader)) reader []) (\<lambda>(chunks, reader).
     Inr (\<lparr>Frame_Header = frameHeader, Frame_Chunks = chunks\<rparr>, reader)))"

section \<open>Tag decoding\<close>

definition readTag :: "Reader \<Rightarrow> error + (Tag \<times> Reader)" where
  "readTag reader =
     bind (binary_Read_uint16 reader) (\<lambda>(fromFrame, reader).
     bind (binary_Read_uint16 reader) (\<lambda>(toFrame, reader).
     bind (binary_Read_uint8 reader) (\<lambda>(direction, reader).
     bind (binary_Read_uint16 reader) (\<lambda>(repeat, reader).
     bind (binary_Read_bytes3 (Read_skip reader 6)) (\<lambda>(color, reader).
     bind (binary_Read_uint16 (Read_skip reader 1)) (\<lambda>(nameLength, reader).
     bind (ReadFull reader (unat nameLength)) (\<lambda>(nameBytes, reader).
     Inr (\<lparr>Tag_Name = nameBytes, Tag_FromFrame = fromFrame, Tag_ToFrame = toFrame,
           Tag_Direction = direction, Tag_Repeat = repeat, Tag_Color = color\<rparr>,
          reader))))))))"

function parseTagsChunk_loop :: "nat \<Rightarrow> nat \<Rightarrow> Reader \<Rightarrow> Tag list \<Rightarrow> error + Tag list" where
  "parseTagsChunk_loop i numTags reader tags =
     (if i < numTags
      then (case readTag reader of
              Inl err \<Rightarrow> Inl err
            | Inr (tag, reader') \<Rightarrow> parseTagsChunk_loop (i + 1) numTags reader' (tags @ [tag]))
      else Inr tags)"
  by pat_completeness auto
termination
  by (relation "measure (\<lambda>(i, numTags, reader, tags). numTags - i)") auto

declare parseTagsChunk_loop.simps [simp del]

definition parseTagsChunk :: "byte list \<Rightarrow> error + Tag list" where
  "parseTagsChunk data =
     bind (binary_Read_uint16 (NewReader data)) (\<lambda>(numTags, reader).
     parseTagsChunk_loop 0 (unat numTags) (Read_skip reader 8) [])"

section \<open>The document\<close>

text \<open>
  The body of the scan for tags in \<^verbatim>\<open>ParseFile\<close>: a Tags chunk (type 0x2018) whose payload
  parses appends its tags; one whose payload does not parse is passed over.
\<close>

definition ParseFile_chunk :: "Chunk \<Rightarrow> Tag list \<Rightarrow> Tag list" where
  "ParseFile_chunk chunk tags =
     (if Chunk_Type chunk = 0x2018
      then (case parseTagsChunk (Chunk_Data chunk) of
              Inr ts \<Rightarrow> tags @ ts
            | Inl err \<Rightarrow> tags)
      else tags)"

function ParseFile_loop :: "nat \<Rightarrow> Reader \<Rightarrow> File \<Rightarrow> error + File" where
  "ParseFile_loop i reader file =
     (if i < unat (Header_Frames (File_Header file))
      then (case readFrame reader of
              Inl err \<Rightarrow> Inl (FailedToReadFrame i err)
            | Inr (frame, reader') \<Rightarrow>
                ParseFile_loop (i + 1) reader'
                  (file\<lparr>File_Frames := (File_Frames file)[i := Some frame],
                        File_Tags := fold ParseFile_chunk (Frame_Chunks frame) (File_Tags file)\<rparr>))
      else Inr file)"
  by pat_completeness auto
termination
  by (relation "measure (\<lambda>(i, reader, file). unat (Header_Frames (File_Header file)) - i)") auto

declare ParseFile_loop.simps [simp del]

definition ParseFile :: "byte list \<Rightarrow> error + File" where
  "ParseFile data =
     (case readHeader (NewReader data) of
        Inl err \<Rightarrow> Inl (FailedToReadHeader err)
      | Inr (header, reader) \<Rightarrow>
          if Header_MagicNumber header \<noteq> 0xA5E0
          then Inl (InvalidMagicNumber (Header_MagicNumber header))
          else ParseFile_loop 0 reader
                 \<lparr>File_Header = header,
                  File_Frames = replicate (unat (Header_Frames header)) None,
                  File_Tags = []\<rparr>)"

section \<open>Cel decoding\<close>

text \<open>
  \<^verbatim>\<open>compress/zlib\<close> is not code of this repository: \<open>inflate\<close> is the parameter that
  stands for \<^verbatim>\<open>zlib.NewReader\<close> followed by \<^verbatim>\<open>io.ReadAll\<close> on the compressed bytes.
  The length of \<open>compressedData\<close> is \<^verbatim>\<open>len(data)-int(reader.Size())+int(reader.Len())\<close>,
  computed on \<^verbatim>\<open>int\<close>.
\<close>

definition parseCelChunk :: "(byte list \<Rightarrow> error + byte list) \<Rightarrow> byte list \<Rightarrow> error + Cel" where
  "parseCelChunk inflate data =
     bind (binary_Read_uint16 (NewReader data)) (\<lambda>(layerIndex, reader).
     bind (binary_Read_uint16 reader) (\<lambda>(x, reader).
     bind (binary_Read_uint16 reader) (\<lambda>(y, reader).
     bind (binary_Read_uint8 reader) (\<lambda>(opacity, reader).
     bind (binary_Read_uint16 reader) (\<lambda>(type, reader).
     bind (binary_Read_uint16 reader) (\<lambda>(zIndex, reader).
     let reader = Read_skip reader 5 in
     if type = 2
     then
       bind (binary_Read_uint16 reader) (\<lambda>(width, reader).
       bind (binary_Read_uint16 reader) (\<lambda>(height, reader).
       bind (ReadFull reader
               (nat (int (length data) - int (Size reader) + int (Len reader))))
            (\<lambda>(compressedData, reader).
       bind (inflate compressedData) (\<lambda>pixels.
       Inr \<lparr>Cel_LayerIndex = layerIndex, Cel_X = x, Cel_Y = y, Cel_Opacity = opacity,
            Cel_Type = type, Cel_ZIndex = zIndex, Cel_Width = width, Cel_Height = height,
            Cel_Pixels = pixels\<rparr>))))
     else Inl (UnsupportedCelType type)))))))"

section \<open>The pixel compositor\<close>

record RGBA =
  RGBA_R :: byte
  RGBA_G :: byte
  RGBA_B :: byte
  RGBA_A :: byte

text \<open>
  \<^verbatim>\<open>image.RGBA\<close> over the rectangle from (0, 0) to (\<open>Image_Dx\<close>, \<open>Image_Dy\<close>): one
  \<open>RGBA\<close> per pixel, row after row. \<open>Image_Set\<close> stores a \<^verbatim>\<open>color.RGBA\<close> as it is and
  does nothing outside the rectangle; \<open>Image_At\<close> reads the pixel at \<open>(x, y)\<close>.
\<close>

record Image =
  Image_Pix :: "RGBA list"
  Image_Dx :: nat
  Image_Dy :: nat

definition NewRGBA :: "nat \<Rightarrow> nat \<Rightarrow> Image" where
  "NewRGBA w h =
     \<lparr>Image_Pix = replicate (w * h) \<lparr>RGBA_R = 0, RGBA_G = 0, RGBA_B = 0, RGBA_A = 0\<rparr>,
      Image_Dx = w, Image_Dy = h\<rparr>"

definition Image_Set :: "Image \<Rightarrow> int \<Rightarrow> int \<Rightarrow> RGBA \<Rightarrow> Image" where
  "Image_Set img x y c =
     (if 0 \<le> x \<and> x < int (Image_Dx img) \<and> 0 \<le> y \<and> y < int (Image_Dy img)
      then img\<lparr>Image_Pix := (Image_Pix img)[nat y * Image_Dx img + nat x := c]\<rparr>
      else img)"

definition Image_At :: "Image \<Rightarrow> nat \<Rightarrow> nat \<Rightarrow> RGBA" where
  "Image_At img x y = Image_Pix img ! (y * Image_Dx img + x)"

text \<open>The \<^verbatim>\<open>switch colorDepth\<close> of \<^verbatim>\<open>drawCelToImage\<close>; \<open>c\<close> starts as the zero colour.\<close>

definition pixelColor :: "byte list \<Rightarrow> uint16 \<Rightarrow> nat \<Rightarrow> RGBA" where
  "pixelColor pixels colorDepth pixelIndex =
     (let c = \<lparr>RGBA_R = 0, RGBA_G = 0, RGBA_B = 0, RGBA_A = 0\<rparr> in
      if colorDepth = 32 then
        (if pixelIndex + 3 < length pixels
         then \<lparr>RGBA_R = pixels ! pixelIndex, RGBA_G = pixels ! (pixelIndex + 1),
               RGBA_B = pixels ! (pixelIndex + 2), RGBA_A = pixels ! (pixelIndex + 3)\<rparr>
         else c)
      else if colorDepth = 16 then
        (if pixelIndex + 1 < length pixels
         then (let gray = pixels ! pixelIndex; alpha = pixels ! (pixelIndex + 1)
               in \<lparr>RGBA_R = gray, RGBA_G = gray, RGBA_B = gray, RGBA_A = alpha\<rparr>)
         else c)
      else if colorDepth = 8 then
        (if pixelIndex < length pixels
         then (let gray = pixels ! pixelIndex
               in \<lparr>RGBA_R = gray, RGBA_G = gray, RGBA_B = gray, RGBA_A = 255\<rparr>)
         else c)
      else c)"

text \<open>\<^verbatim>\<open>uint8((uint16(c.A) * uint16(cel.Opacity)) / 255)\<close>\<close>

definition applyOpacity :: "byte \<Rightarrow> byte \<Rightarrow> byte" where
  "applyOpacity a opacity = ucast (((ucast a :: uint16) * (ucast opacity :: uint16)) div 255)"

definition bytesPerPixel :: "uint16 \<Rightarrow> nat" where
  "bytesPerPixel colorDepth =
     (let bpp = unat (colorDepth div 8) in if bpp = 0 then 1 else bpp)"

text \<open>
  The body of the two loops, at row \<open>y\<close> and column \<open>x\<close>. The products are on Go's 64-bit
  \<^verbatim>\<open>int\<close> and stay below \<open>2^45\<close>, so no wrap-around is written.
\<close>

definition drawPixel :: "Cel \<Rightarrow> uint16 \<Rightarrow> nat \<Rightarrow> nat \<Rightarrow> Image \<Rightarrow> Image" where
  "drawPixel cel colorDepth y x img =
     (let pixelIndex = (y * unat (Cel_Width cel) + x) * bytesPerPixel colorDepth in
      if pixelIndex + bytesPerPixel colorDepth > length (Cel_Pixels cel) then img
      else
        let c = pixelColor (Cel_Pixels cel) colorDepth pixelIndex;
            c = c\<lparr>RGBA_A := applyOpacity (RGBA_A c) (Cel_Opacity cel)\<rparr>;
            imgX = sint (Cel_X cel) + int x;
            imgY = sint (Cel_Y cel) + int y
        in if imgX \<ge> 0 \<and> imgY \<ge> 0 \<and> imgX < int (Image_Dx img) \<and> imgY < int (Image_Dy img)
           then Image_Set img imgX imgY c
           else img)"

definition drawCelToImage :: "Image \<Rightarrow> Cel \<Rightarrow> uint16 \<Rightarrow> error + Image" where
  "drawCelToImage img cel colorDepth =
     (if length (Cel_Pixels cel) = 0 then Inl NoPixelData
      else Inr (fold (\<lambda>y. fold (\<lambda>x. drawPixel cel colorDepth y x)
                              [0..<unat (Cel_Width cel)])
                     [0..<unat (Cel_Height cel)] img))"

text \<open>The body of the chunk loop of \<^verbatim>\<open>GetFrameImage\<close>: both errors are a \<^verbatim>\<open>continue\<close>.\<close>

definition GetFrameImage_chunk ::
  "(byte list \<Rightarrow> error + byte list) \<Rightarrow> uint16 \<Rightarrow> Chunk \<Rightarrow> Image \<Rightarrow> Image" where
  "GetFrameImage_chunk inflate colorDepth chunk img =
     (if Chunk_Type chunk = 0x2005
      then (case parseCelChunk inflate (Chunk_Data chunk) of
              Inl err \<Rightarrow> img
            | Inr cel \<Rightarrow>
                (case drawCelToImage img cel colorDepth of
                   Inl err \<Rightarrow> img
                 | Inr img' \<Rightarrow> img'))
      else img)"

text \<open>
  \<^verbatim>\<open>frameIndex\<close> is a Go \<^verbatim>\<open>int\<close>. Indexing \<^verbatim>\<open>f.Frames\<close> below 0 is a runtime panic, and
  so is reading the chunks of a nil frame.
\<close>

definition GetFrameImage ::
  "(byte list \<Rightarrow> error + byte list) \<Rightarrow> File \<Rightarrow> int \<Rightarrow> error + Image" where
  "GetFrameImage inflate f frameIndex =
     (if frameIndex \<ge> int (length (File_Frames f))
      then Inl (FrameIndexOutOfRange frameIndex)
      else if frameIndex < 0 then Inl PanicIndexOutOfRange
      else
        (case File_Frames f ! nat frameIndex of
           None \<Rightarrow> Inl PanicNilDereference
         | Some frame \<Rightarrow>
             Inr (fold (GetFrameImage_chunk inflate (Header_ColorDepth (File_Header f)))
                       (Frame_Chunks frame)
                       (NewRGBA (unat (Header_Width (File_Header f)))
                                (unat (Header_Height (File_Header f)))))))"

section \<open>Vocabulary for the properties\<close>

text \<open>
  The unread bytes \<^verbatim>\<open>s[i:]\<close> of a reader, the reader moved on by \<open>n\<close> bytes, and the
  error \<^verbatim>\<open>io.ReadFull\<close> gives at a reader that holds too few bytes.
\<close>

definition rest :: "Reader \<Rightarrow> byte list" where
  "rest r = drop (Reader_i r) (Reader_s r)"

definition advance :: "Reader \<Rightarrow> nat \<Rightarrow> Reader" where
  "advance r n = r\<lparr>Reader_i := Reader_i r + n\<rparr>"

definition eof_error :: "Reader \<Rightarrow> error" where
  "eof_error r = (if rest r = [] then EOF else ErrUnexpectedEOF)"

definition truncation :: "error \<Rightarrow> bool" where
  "truncation e \<longleftrightarrow> e = EOF \<or> e = ErrUnexpectedEOF"

text \<open>
  Reading the chunks \<open>cs\<close> one after the other from \<open>r\<close> ends at \<open>r'\<close>; the same for
  frames.
\<close>

fun chunk_run :: "Reader \<Rightarrow> Chunk list \<Rightarrow> Reader \<Rightarrow> bool" where
  "chunk_run r [] r' \<longleftrightarrow> r' = r"
| "chunk_run r (c # cs) r' \<longleftrightarrow>
     (case readChunk r of Inl e \<Rightarrow> False | Inr (c', r1) \<Rightarrow> c' = c \<and> chunk_run r1 cs r')"

fun frame_run :: "Reader \<Rightarrow> Frame list \<Rightarrow> Reader \<Rightarrow> bool" where
  "frame_run r [] r' \<longleftrightarrow> r' = r"
| "frame_run r (f # fs) r' \<longleftrightarrow>
     (case readFrame r of Inl e \<Rightarrow> False | Inr (f', r1) \<Rightarrow> f' = f \<and> frame_run r1 fs r')"

text \<open>
  The Tags chunks whose payload parses, and the cel chunks whose payload decodes; the cels
  decoded from a list of chunks, in chunk order, and the compositing of one cel, which
  leaves the canvas as it is when the cel cannot be drawn.
\<close>

definition parsed_tags_chunk :: "Chunk \<Rightarrow> bool" where
  "parsed_tags_chunk c \<longleftrightarrow> Chunk_Type c = 0x2018 \<and> \<not> isl (parseTagsChunk (Chunk_Data c))"

definition decoded_cel_chunk :: "(byte list \<Rightarrow> error + byte list) \<Rightarrow> Chunk \<Rightarrow> bool" where
  "decoded_cel_chunk inflate c \<longleftrightarrow>
     Chunk_Type c = 0x2005 \<and> \<not> isl (parseCelChunk inflate (Chunk_Data c))"

definition decodedCels :: "(byte list \<Rightarrow> error + byte list) \<Rightarrow> Chunk list \<Rightarrow> Cel list" where
  "decodedCels inflate chunks =
     map (\<lambda>c. projr (parseCelChunk inflate (Chunk_Data c)))
         (filter (decoded_cel_chunk inflate) chunks)"

definition compositeCel :: "uint16 \<Rightarrow> Cel \<Rightarrow> Image \<Rightarrow> Image" where
  "compositeCel colorDepth cel img =
     (case drawCelToImage img cel colorDepth of Inl err \<Rightarrow> img | Inr img' \<Rightarrow> img')"

text \<open>
  The layout of a Tags payload as the format states it, written as an encoder: the count,
  8 reserved bytes, then for each tag the two frame numbers, the direction, the repeat
  count, 6 reserved bytes, the colour, 1 extra byte and the name with its 16-bit length.
  A record is a tag with its 7 reserved bytes (the 6 and the 1).
\<close>

definition put_uint16 :: "uint16 \<Rightarrow> byte list" where
  "put_uint16 v = [ucast v, ucast (drop_bit 8 v)]"

definition encode_tag :: "byte list \<times> Tag \<Rightarrow> byte list" where
  "encode_tag rec =
     (case rec of (reserved, tag) \<Rightarrow>
        put_uint16 (Tag_FromFrame tag) @ put_uint16 (Tag_ToFrame tag) @ [Tag_Direction tag]
        @ put_uint16 (Tag_Repeat tag) @ take 6 reserved @ Tag_Color tag @ drop 6 reserved
        @ put_uint16 (of_nat (length (Tag_Name tag))) @ Tag_Name tag)"

definition encode_tags :: "byte list \<Rightarrow> (byte list \<times> Tag) list \<Rightarrow> byte list" where
  "encode_tags reserved recs =
     put_uint16 (of_nat (length recs)) @ reserved @ concat (map encode_tag recs)"

definition well_formed_record :: "byte list \<times> Tag \<Rightarrow> bool" where
  "well_formed_record rec \<longleftrightarrow>
     length (fst rec) = 7 \<and> length (Tag_Color (snd rec)) = 3
     \<and> length (Tag_Name (snd rec)) < 2 ^ 16"

section \<open>Concrete inputs\<close>

text \<open>
  The inputs at which the theorems below are evaluated: a header of a 2 by 1 canvas with
  8-bit pixels, and a compressed cel of one pixel of value 200.
\<close>

definition example_header :: Header where
  "example_header =
     \<lparr>Header_FileSize = 238, Header_MagicNumber = 0xA5E0, Header_Frames = 1,
      Header_Width = 2, Header_Height = 1, Header_ColorDepth = 8, Header_Flags = 0,
      Header_Speed = 0, Header_Transparent = 0, Header_Colors = 0,
      Header_PixelWidth = 1, Header_PixelHeight = 1, Header_GridX = 0, Header_GridY = 0,
      Header_GridWidth = 0, Header_GridHeight = 0\<rparr>"

definition gray_cel :: Cel where
  "gray_cel =
     \<lparr>Cel_LayerIndex = 0, Cel_X = 0, Cel_Y = 0, Cel_Opacity = 255, Cel_Type = 2,
      Cel_ZIndex = 0, Cel_Width = 1, Cel_Height = 1, Cel_Pixels = [200]\<rparr>"

definition example_frame_bytes :: "byte list" where
  "example_frame_bytes =
     [30, 0, 0, 0, 0xFA, 0xF1, 2, 0, 100, 0, 0, 0, 0, 0, 0, 0,
      6, 0, 0, 0, 0x04, 0x20,
      8, 0, 0, 0, 0x18, 0x20, 1, 2]"

definition example_frame_header :: FrameHeader where
  "example_frame_header =
     \<lparr>FrameHeader_BytesInFrame = 30, FrameHeader_MagicNumber = 0xF1FA,
      FrameHeader_OldChunks = 2, FrameHeader_Duration = 100, FrameHeader_NewChunks = 0\<rparr>"

definition example_chunks :: "Chunk list" where
  "example_chunks =
     [\<lparr>Chunk_Size = 6, Chunk_Type = 0x2004, Chunk_Data = []\<rparr>,
      \<lparr>Chunk_Size = 8, Chunk_Type = 0x2018, Chunk_Data = [1, 2]\<rparr>]"

text \<open>
  A document of 238 bytes: the header of 128 bytes and one frame of four chunks, a Tags
  chunk whose payload is cut short, a Tags chunk with the one tag named "Go", a linked
  cel (type 1) and a compressed cel of one pixel at (1, 0). In the evaluations \<open>Inr\<close>
  stands in for zlib: the compressed bytes are the pixels.
\<close>

definition example_file_bytes :: "byte list" where
  "example_file_bytes =
     [238, 0, 0, 0, 0xE0, 0xA5, 1, 0, 2, 0, 1, 0, 8, 0, 0, 0, 0, 0, 0, 0]
     @ replicate 8 0 @ [0, 0, 0, 0, 0, 0, 1, 1, 0, 0, 0, 0, 0, 0, 0, 0] @ replicate 84 0
     @ [110, 0, 0, 0, 0xFA, 0xF1, 4, 0, 100, 0, 0, 0, 4, 0, 0, 0]
     @ [8, 0, 0, 0, 0x18, 0x20, 1, 2]
     @ [37, 0, 0, 0, 0x18, 0x20, 1, 0] @ replicate 8 0
       @ [0, 0, 1, 0, 0, 0, 0] @ replicate 6 0 @ [255, 0, 0, 0, 2, 0, 0x47, 0x6F]
     @ [22, 0, 0, 0, 0x05, 0x20, 0, 0, 0, 0, 0, 0, 255, 1, 0, 0, 0] @ replicate 5 0
     @ [27, 0, 0, 0, 0x05, 0x20, 0, 0, 1, 0, 0, 0, 255, 2, 0, 0, 0] @ replicate 5 0
       @ [1, 0, 1, 0, 200]"

definition example_tag :: Tag where
  "example_tag =
     \<lparr>Tag_Name = [0x47, 0x6F], Tag_FromFrame = 0, Tag_ToFrame = 1, Tag_Direction = 0,
      Tag_Repeat = 0, Tag_Color = [255, 0, 0]\<rparr>"

definition example_frame :: Frame where
  "example_frame =
     \<lparr>Frame_Header =
        \<lparr>FrameHeader_BytesInFrame = 110, FrameHeader_MagicNumber = 0xF1FA,
         FrameHeader_OldChunks = 4, FrameHeader_Duration = 100, FrameHeader_NewChunks = 4\<rparr>,
      Frame_Chunks =
        [\<lparr>Chunk_Size = 8, Chunk_Type = 0x2018, Chunk_Data = [1, 2]\<rparr>,
         \<lparr>Chunk_Size = 37, Chunk_Type = 0x2018,
          Chunk_Data = [1, 0] @ replicate 8 0 @ [0, 0, 1, 0, 0, 0, 0] @ replicate 6 0
                       @ [255, 0, 0, 0, 2, 0, 0x47, 0x6F]\<rparr>,
         \<lparr>Chunk_Size = 22, Chunk_Type = 0x2005,
          Chunk_Data = [0, 0, 0, 0, 0, 0, 255, 1, 0, 0, 0] @ replicate 5 0\<rparr>,
         \<lparr>Chunk_Size = 27, Chunk_Type = 0x2005,
          Chunk_Data = [0, 0, 1, 0, 0, 0, 255, 2, 0, 0, 0] @ replicate 5 0 @ [1, 0, 1, 0, 200]\<rparr>]\<rparr>"

definition example_file :: File where
  "example_file =
     \<lparr>File_Header = example_header, File_Frames = [Some example_frame],
      File_Tags = [example_tag]\<rparr>"

definition example_records :: "(byte list \<times> Tag) list" where
  "example_records =
     [(replicate 7 0, example_tag),
      ([1, 2, 3, 4, 5, 6, 7],
       \<lparr>Tag_Name = [], Tag_FromFrame = 2, Tag_ToFrame = 0x0105, Tag_Direction = 3,
        Tag_Repeat = 0xFFFF, Tag_Color = [1, 2, 3]\<rparr>)]"

section \<open>Properties of the opacity scaling\<close>

lemma unat_byte_less: "unat (a::byte) < 256"
  using unsigned_less [of a, where 'a = nat] by simp

lemma unat_ucast_byte16: "unat (ucast (a::byte) :: uint16) = unat a"
  using unat_byte_less [of a] by (simp add: unsigned_ucast_eq take_bit_nat_eq_self)

lemma opacity_product_no_overflow:
  "unat ((ucast (a::byte) :: uint16) * ucast (opacity::byte)) = unat a * unat opacity"
proof -
  have "unat a * unat opacity \<le> 255 * 255"
    using unat_byte_less [of a] unat_byte_less [of opacity] by (intro mult_le_mono) simp_all
  then have "unat a * unat opacity < 2 ^ 16" by simp
  then show ?thesis
    by (simp add: unat_word_ariths unat_ucast_byte16)
qed

lemma pixel_offset_less:
  assumes "x < w" and "y < (h::nat)"
  shows "y * w + x < w * h"
proof -
  have "y * w + x < y * w + w" using assms(1) by simp
  also have "\<dots> = (Suc y) * w" by simp
  also have "\<dots> \<le> h * w" using assms(2) by (intro mult_le_mono1) simp
  finally show ?thesis by (simp add: mult.commute)
qed

lemma drawPixel_alpha:
  assumes "(y * unat (Cel_Width cel) + x) * bytesPerPixel colorDepth + bytesPerPixel colorDepth
             \<le> length (Cel_Pixels cel)"
    and "0 \<le> sint (Cel_X cel) + int x" and "sint (Cel_X cel) + int x < int (Image_Dx img)"
    and "0 \<le> sint (Cel_Y cel) + int y" and "sint (Cel_Y cel) + int y < int (Image_Dy img)"
    and "length (Image_Pix img) = Image_Dx img * Image_Dy img"
  shows "RGBA_A (Image_At (drawPixel cel colorDepth y x img)
                   (nat (sint (Cel_X cel) + int x)) (nat (sint (Cel_Y cel) + int y)))
         = applyOpacity
             (RGBA_A (pixelColor (Cel_Pixels cel) colorDepth
                        ((y * unat (Cel_Width cel) + x) * bytesPerPixel colorDepth)))
             (Cel_Opacity cel)"
proof -
  have "nat (sint (Cel_Y cel) + int y) * Image_Dx img + nat (sint (Cel_X cel) + int x)
          < Image_Dx img * Image_Dy img"
    using assms(2-5) by (intro pixel_offset_less) simp_all
  then show ?thesis
    using assms
    by (simp add: drawPixel_def Image_Set_def Image_At_def Let_def)
qed

text \<open>
  C8: for every alpha \<open>a\<close> and opacity \<open>o\<close> (two bytes, so both in 0..255), the alpha
  that \<^verbatim>\<open>drawCelToImage\<close> computes is the floor of \<open>a * o / 255\<close>, and the 16-bit product
  it divides is the exact product: it never wraps around. For a pixel whose source bytes
  are there and whose place is on the canvas, that is the alpha on the canvas after the
  pixel is drawn, with \<open>a\<close> the alpha the colour depth resolves.
\<close>

theorem applyOpacity_floor:
  "unat (applyOpacity a opacity) = (unat a * unat opacity) div 255
   \<and> unat ((ucast a :: uint16) * (ucast opacity :: uint16)) = unat a * unat opacity
   \<and> ((y * unat (Cel_Width cel) + x) * bytesPerPixel colorDepth + bytesPerPixel colorDepth
             \<le> length (Cel_Pixels cel)
        \<and> 0 \<le> sint (Cel_X cel) + int x \<and> sint (Cel_X cel) + int x < int (Image_Dx img)
        \<and> 0 \<le> sint (Cel_Y cel) + int y \<and> sint (Cel_Y cel) + int y < int (Image_Dy img)
        \<and> length (Image_Pix img) = Image_Dx img * Image_Dy img \<longrightarrow>
        unat (RGBA_A (Image_At (drawPixel cel colorDepth y x img)
                   (nat (sint (Cel_X cel) + int x)) (nat (sint (Cel_Y cel) + int y))))
        = (unat (RGBA_A (pixelColor (Cel_Pixels cel) colorDepth
                        ((y * unat (Cel_Width cel) + x) * bytesPerPixel colorDepth)))
           * unat (Cel_Opacity cel)) div 255)"
proof -
  have floor: "unat (applyOpacity b c) = (unat b * unat c) div 255" for b c
  proof -
    have le: "unat b * unat c \<le> 255 * 255"
      using unat_byte_less [of b] unat_byte_less [of c] by (intro mult_le_mono) simp_all
    have d: "unat (((ucast b :: uint16) * ucast c) div 255) = (unat b * unat c) div 255"
      by (simp add: unat_div opacity_product_no_overflow)
    have "(unat b * unat c) div 255 \<le> 255" using le by simp
    then have lt: "(unat b * unat c) div 255 < 2 ^ 8" by simp
    show ?thesis
      unfolding applyOpacity_def using lt
      by (simp add: unsigned_ucast_eq d take_bit_nat_eq_self)
  qed
  show ?thesis
    by (intro conjI impI) (simp_all add: floor opacity_product_no_overflow drawPixel_alpha)
qed

theorem applyOpacity_floor_witness:
  "unat (RGBA_A (Image_At (drawPixel (gray_cel\<lparr>Cel_Opacity := 128\<rparr>) 8 0 0 (NewRGBA 1 1)) 0 0))
     = 128
   \<and> unat (applyOpacity 255 255) = 255 \<and> unat (applyOpacity 0 77) = 0"
proof -
  have h: "(0 * unat (Cel_Width (gray_cel\<lparr>Cel_Opacity := 128\<rparr>)) + 0) * bytesPerPixel 8
             + bytesPerPixel 8 \<le> length (Cel_Pixels (gray_cel\<lparr>Cel_Opacity := 128\<rparr>))
        \<and> 0 \<le> sint (Cel_X (gray_cel\<lparr>Cel_Opacity := 128\<rparr>)) + int 0
        \<and> sint (Cel_X (gray_cel\<lparr>Cel_Opacity := 128\<rparr>)) + int 0 < int (Image_Dx (NewRGBA 1 1))
        \<and> 0 \<le> sint (Cel_Y (gray_cel\<lparr>Cel_Opacity := 128\<rparr>)) + int 0
        \<and> sint (Cel_Y (gray_cel\<lparr>Cel_Opacity := 128\<rparr>)) + int 0 < int (Image_Dy (NewRGBA 1 1))
        \<and> length (Image_Pix (NewRGBA 1 1)) = Image_Dx (NewRGBA 1 1) * Image_Dy (NewRGBA 1 1)"
    by (simp add: gray_cel_def bytesPerPixel_def NewRGBA_def)
  have v: "(unat (RGBA_A (pixelColor (Cel_Pixels (gray_cel\<lparr>Cel_Opacity := 128\<rparr>)) 8
                        ((0 * unat (Cel_Width (gray_cel\<lparr>Cel_Opacity := 128\<rparr>)) + 0) * bytesPerPixel 8)))
           * unat (Cel_Opacity (gray_cel\<lparr>Cel_Opacity := 128\<rparr>))) div 255 = 128"
    by (simp add: gray_cel_def bytesPerPixel_def pixelColor_def)
  have s: "nat (sint (Cel_X (gray_cel\<lparr>Cel_Opacity := 128\<rparr>)) + int 0) = 0"
          "nat (sint (Cel_Y (gray_cel\<lparr>Cel_Opacity := 128\<rparr>)) + int 0) = 0"
    by (simp_all add: gray_cel_def)
  from applyOpacity_floor [of 255 255 0 "gray_cel\<lparr>Cel_Opacity := 128\<rparr>" 0 8 "NewRGBA 1 1"]
       applyOpacity_floor [of 0 77 0 "gray_cel\<lparr>Cel_Opacity := 128\<rparr>" 0 8 "NewRGBA 1 1"]
       h v s
  show ?thesis by simp
qed

section \<open>The byte cursor\<close>

lemma bind_Inr [simp]: "bind (Inr x) f = f x"
  by (simp add: bind_def)

lemma bind_Inl [simp]: "bind (Inl e) f = Inl e"
  by (simp add: bind_def)

lemma bind_if: "bind (if c then a else b) f = (if c then bind a f else bind b f)"
  by simp

lemma bind_Inr_iff: "bind m f = Inr y \<longleftrightarrow> (\<exists>x. m = Inr x \<and> f x = Inr y)"
  by (cases m) simp_all

lemma bind_Inl_iff: "bind m f = Inl e \<longleftrightarrow> m = Inl e \<or> (\<exists>x. m = Inr x \<and> f x = Inl e)"
  by (cases m) simp_all

lemma truncation_eof_error [simp]: "truncation (eof_error r)"
  by (simp add: truncation_def eof_error_def)

lemma Len_rest: "Len r = length (rest r)"
  by (simp add: Len_def rest_def)

lemma rest_NewReader [simp]: "rest (NewReader b) = b"
  by (simp add: rest_def NewReader_def)

lemma Size_NewReader [simp]: "Size (NewReader b) = length b"
  by (simp add: Size_def NewReader_def)

lemma rest_advance [simp]: "rest (advance r n) = drop n (rest r)"
  by (simp add: rest_def advance_def add.commute)

lemma Size_advance [simp]: "Size (advance r n) = Size r"
  by (simp add: Size_def advance_def)

lemma advance_advance [simp]: "advance (advance r m) n = advance r (m + n)"
  by (simp add: advance_def add.assoc)

lemma Read_skip_eq: "Read_skip r n = advance r (min n (length (rest r)))"
  by (simp add: Read_skip_def advance_def rest_def)

lemma rest_Read_skip [simp]: "rest (Read_skip r n) = drop n (rest r)"
  by (simp add: Read_skip_eq min_def)

lemma Size_Read_skip [simp]: "Size (Read_skip r n) = Size r"
  by (simp add: Read_skip_eq)

lemma ReadFull_eq:
  "ReadFull r n =
     (if n \<le> length (rest r) then Inr (take n (rest r), advance r n) else Inl (eof_error r))"
  by (simp add: ReadFull_def Len_rest eof_error_def advance_def) (simp add: rest_def)

lemma binary_Read_uint8_eq:
  "binary_Read_uint8 r =
     (if 1 \<le> length (rest r) then Inr (hd (rest r), advance r 1) else Inl (eof_error r))"
  by (cases "rest r") (simp_all add: binary_Read_uint8_def ReadFull_eq)

lemma binary_Read_uint16_eq:
  "binary_Read_uint16 r =
     (if 2 \<le> length (rest r) then Inr (LittleEndian_Uint16 (take 2 (rest r)), advance r 2)
      else Inl (eof_error r))"
  by (simp add: binary_Read_uint16_def ReadFull_eq)

lemma binary_Read_uint32_eq:
  "binary_Read_uint32 r =
     (if 4 \<le> length (rest r) then Inr (LittleEndian_Uint32 (take 4 (rest r)), advance r 4)
      else Inl (eof_error r))"
  by (simp add: binary_Read_uint32_def ReadFull_eq)

lemmas binary_Read_eq =
  binary_Read_uint8_eq binary_Read_uint16_eq binary_Read_uint32_eq

lemma bind_weak_cong: "m = m' \<Longrightarrow> bind m f = bind m' f"
  by simp

lemma truncationD: "truncation e \<Longrightarrow> e = EOF \<or> e = ErrUnexpectedEOF"
  by (simp add: truncation_def)

section \<open>The chunk reader\<close>

lemma readChunk_ok:
  assumes "6 \<le> length (rest r)"
    and "unat (LittleEndian_Uint32 (take 4 (rest r)) - 6) \<le> length (rest r) - 6"
  shows "readChunk r =
           Inr (\<lparr>Chunk_Size = LittleEndian_Uint32 (take 4 (rest r)),
                 Chunk_Type = LittleEndian_Uint16 (take 2 (drop 4 (rest r))),
                 Chunk_Data = take (unat (LittleEndian_Uint32 (take 4 (rest r)) - 6)) (drop 6 (rest r))\<rparr>,
                advance r (6 + unat (LittleEndian_Uint32 (take 4 (rest r)) - 6)))"
  using assms unfolding readChunk_def
  by (simp add: binary_Read_eq ReadFull_eq le_diff_conv2 Let_def cong: bind_weak_cong)

lemma readChunk_short:
  assumes "6 \<le> length (rest r)"
    and "length (rest r) - 6 < unat (LittleEndian_Uint32 (take 4 (rest r)) - 6)"
  shows "readChunk r = Inl (eof_error (advance r 6))"
  using assms unfolding readChunk_def
  by (simp add: binary_Read_eq ReadFull_eq le_diff_conv2 Let_def cong: bind_weak_cong)

lemma readChunk_no_prefix:
  assumes "length (rest r) < 6"
  shows "\<exists>e. readChunk r = Inl e \<and> truncation e"
  using assms unfolding readChunk_def
  by (auto simp add: binary_Read_eq bind_if cong: bind_weak_cong)

lemma readChunk_InlD: "readChunk r = Inl e \<Longrightarrow> truncation e"
proof -
  assume a: "readChunk r = Inl e"
  consider "length (rest r) < 6"
    | "6 \<le> length (rest r)" "length (rest r) - 6 < unat (LittleEndian_Uint32 (take 4 (rest r)) - 6)"
    | "6 \<le> length (rest r)" "unat (LittleEndian_Uint32 (take 4 (rest r)) - 6) \<le> length (rest r) - 6"
    by linarith
  then show ?thesis
  proof cases
    case 1 from readChunk_no_prefix [OF 1] a show ?thesis by auto
  next
    case 2 from readChunk_short [OF 2] a show ?thesis by auto
  next
    case 3 from readChunk_ok [OF 3] a show ?thesis by simp
  qed
qed

lemma readChunk_InrD:
  assumes a: "readChunk r = Inr (c, r')"
  shows "6 \<le> length (rest r)
     \<and> Chunk_Size c = LittleEndian_Uint32 (take 4 (rest r))
     \<and> Chunk_Type c = LittleEndian_Uint16 (take 2 (drop 4 (rest r)))
     \<and> unat (Chunk_Size c - 6) \<le> length (rest r) - 6
     \<and> Chunk_Data c = take (unat (Chunk_Size c - 6)) (drop 6 (rest r))
     \<and> r' = advance r (6 + unat (Chunk_Size c - 6))"
proof -
  consider "length (rest r) < 6"
    | "6 \<le> length (rest r)" "length (rest r) - 6 < unat (LittleEndian_Uint32 (take 4 (rest r)) - 6)"
    | "6 \<le> length (rest r)" "unat (LittleEndian_Uint32 (take 4 (rest r)) - 6) \<le> length (rest r) - 6"
    by linarith
  then show ?thesis
  proof cases
    case 1 from readChunk_no_prefix [OF 1] a show ?thesis by auto
  next
    case 2 from readChunk_short [OF 2] a show ?thesis by auto
  next
    case 3 from readChunk_ok [OF 3] a 3 show ?thesis by auto
  qed
qed

lemma unat_sub6_ge: "6 \<le> (sz::uint32) \<Longrightarrow> unat (sz - 6) = unat sz - 6"
  by (simp add: unat_sub)

lemma unat_sub6_lt: "(sz::uint32) < 6 \<Longrightarrow> unat (sz - 6) = 2 ^ 32 - 6 + unat sz"
  by (simp add: unat_sub_if_size word_size word_less_nat_alt)

lemma readChunk_size_0_short: "readChunk (NewReader [0, 0, 0, 0, 5, 0x20]) = Inl EOF"
  by (simp add: readChunk_def binary_Read_eq ReadFull_eq eof_error_def cong: bind_weak_cong)

lemma readChunk_size_0_4GiB: "readChunk (NewReader ([0, 0, 0, 0, 5, 0x20] @ replicate 4294967290 0))
   = Inr (\<lparr>Chunk_Size = 0, Chunk_Type = 0x2005, Chunk_Data = replicate 4294967290 0\<rparr>,
          \<lparr>Reader_s = [0, 0, 0, 0, 5, 0x20] @ replicate 4294967290 0, Reader_i = 4294967296\<rparr>)"
proof -
  let ?r = "NewReader ([0, 0, 0, 0, 5, 0x20] @ replicate 4294967290 (0::byte))"
  have sz: "LittleEndian_Uint32 (take 4 (rest ?r)) = 0" by simp
  have t: "LittleEndian_Uint16 (take 2 (drop 4 (rest ?r))) = 0x2005" by simp
  have n: "unat ((0::uint32) - 6) = 4294967290" by simp
  have "readChunk ?r = Inr (\<lparr>Chunk_Size = LittleEndian_Uint32 (take 4 (rest ?r)),
                 Chunk_Type = LittleEndian_Uint16 (take 2 (drop 4 (rest ?r))),
                 Chunk_Data = take (unat (LittleEndian_Uint32 (take 4 (rest ?r)) - 6)) (drop 6 (rest ?r))\<rparr>,
                advance ?r (6 + unat (LittleEndian_Uint32 (take 4 (rest ?r)) - 6)))"
    by (rule readChunk_ok) (simp_all add: sz n del: rest_NewReader, simp_all)
  then show ?thesis
    unfolding sz t n by (simp add: advance_def NewReader_def rest_def)
qed

text \<open>
  C1 as the claim states it fails: \<^verbatim>\<open>readChunk\<close> has no check of the declared size and no
  malformed-length error. With a declared size of 0 and nothing after the six bytes of
  the prefix it returns \<^verbatim>\<open>io.EOF\<close>, the error of a truncated stream; with
  \<open>2^32 - 6\<close> bytes after the prefix it returns a chunk.
\<close>

theorem readChunk_malformed_counterexample:
  "readChunk (NewReader [0, 0, 0, 0, 5, 0x20]) = Inl EOF
   \<and> readChunk (NewReader ([0, 0, 0, 0, 5, 0x20] @ replicate 4294967290 0))
       = Inr (\<lparr>Chunk_Size = 0, Chunk_Type = 0x2005, Chunk_Data = replicate 4294967290 0\<rparr>,
              \<lparr>Reader_s = [0, 0, 0, 0, 5, 0x20] @ replicate 4294967290 0,
               Reader_i = 4294967296\<rparr>)"
  using readChunk_size_0_short readChunk_size_0_4GiB by simp

text \<open>
  C1, amended: at a reader that holds the six bytes of the prefix, with \<open>size\<close> the declared
  size, the payload the chunk reader asks for has \<open>size - 6\<close> bytes on \<^verbatim>\<open>uint32\<close>. When
  that many bytes are left it returns a chunk whose payload has exactly that length; when
  fewer are left it fails with \<^verbatim>\<open>io.EOF\<close> or \<^verbatim>\<open>io.ErrUnexpectedEOF\<close>. For \<open>size \<ge> 6\<close>
  the length is \<open>size - 6\<close>; for \<open>size < 6\<close> the subtraction wraps to \<open>2^32 - 6 + size\<close>.
\<close>

theorem readChunk_payload:
  assumes "6 \<le> Len r"
  shows "(unat (LittleEndian_Uint32 (take 4 (rest r)) - 6) \<le> Len r - 6 \<longrightarrow>
            (\<exists>c r'. readChunk r = Inr (c, r')
               \<and> Chunk_Size c = LittleEndian_Uint32 (take 4 (rest r))
               \<and> length (Chunk_Data c) = unat (Chunk_Size c - 6)))
       \<and> (Len r - 6 < unat (LittleEndian_Uint32 (take 4 (rest r)) - 6) \<longrightarrow>
            (\<exists>e. readChunk r = Inl e \<and> (e = EOF \<or> e = ErrUnexpectedEOF)))
       \<and> (6 \<le> LittleEndian_Uint32 (take 4 (rest r)) \<longrightarrow>
            unat (LittleEndian_Uint32 (take 4 (rest r)) - 6)
              = unat (LittleEndian_Uint32 (take 4 (rest r))) - 6)
       \<and> (LittleEndian_Uint32 (take 4 (rest r)) < 6 \<longrightarrow>
            unat (LittleEndian_Uint32 (take 4 (rest r)) - 6)
              = 2 ^ 32 - 6 + unat (LittleEndian_Uint32 (take 4 (rest r))))"
proof (intro conjI impI)
  assume a: "unat (LittleEndian_Uint32 (take 4 (rest r)) - 6) \<le> Len r - 6"
  from assms a have "readChunk r =
           Inr (\<lparr>Chunk_Size = LittleEndian_Uint32 (take 4 (rest r)),
                 Chunk_Type = LittleEndian_Uint16 (take 2 (drop 4 (rest r))),
                 Chunk_Data = take (unat (LittleEndian_Uint32 (take 4 (rest r)) - 6)) (drop 6 (rest r))\<rparr>,
                advance r (6 + unat (LittleEndian_Uint32 (take 4 (rest r)) - 6)))"
    by (intro readChunk_ok) (simp_all add: Len_rest)
  moreover have "length (take (unat (LittleEndian_Uint32 (take 4 (rest r)) - 6)) (drop 6 (rest r)))
      = unat (LittleEndian_Uint32 (take 4 (rest r)) - 6)"
    using a by (simp add: Len_rest)
  ultimately show "\<exists>c r'. readChunk r = Inr (c, r')
               \<and> Chunk_Size c = LittleEndian_Uint32 (take 4 (rest r))
               \<and> length (Chunk_Data c) = unat (Chunk_Size c - 6)"
    by simp
next
  assume a: "Len r - 6 < unat (LittleEndian_Uint32 (take 4 (rest r)) - 6)"
  from assms a have "readChunk r = Inl (eof_error (advance r 6))"
    by (intro readChunk_short) (simp_all add: Len_rest)
  then show "\<exists>e. readChunk r = Inl e \<and> (e = EOF \<or> e = ErrUnexpectedEOF)"
    by (simp add: eof_error_def)
next
  assume "6 \<le> LittleEndian_Uint32 (take 4 (rest r))"
  then show "unat (LittleEndian_Uint32 (take 4 (rest r)) - 6)
              = unat (LittleEndian_Uint32 (take 4 (rest r))) - 6"
    by (rule unat_sub6_ge)
next
  assume "LittleEndian_Uint32 (take 4 (rest r)) < 6"
  then show "unat (LittleEndian_Uint32 (take 4 (rest r)) - 6)
              = 2 ^ 32 - 6 + unat (LittleEndian_Uint32 (take 4 (rest r)))"
    by (rule unat_sub6_lt)
qed

theorem readChunk_payload_witness:
  "6 \<le> Len (NewReader [8, 0, 0, 0, 5, 0x20, 1, 2])
   \<and> (\<exists>c r'. readChunk (NewReader [8, 0, 0, 0, 5, 0x20, 1, 2]) = Inr (c, r')
         \<and> Chunk_Size c = 8 \<and> length (Chunk_Data c) = 2)
   \<and> (\<exists>e. readChunk (NewReader [3, 0, 0, 0, 5, 0x20, 1, 2]) = Inl e \<and> (e = EOF \<or> e = ErrUnexpectedEOF))"
proof -
  have l1: "6 \<le> Len (NewReader [8, 0, 0, 0, 5, 0x20, 1, 2])" by (simp add: Len_rest)
  have l2: "6 \<le> Len (NewReader [3, 0, 0, 0, 5, 0x20, 1, 2])" by (simp add: Len_rest)
  show ?thesis
    using readChunk_payload [OF l1] readChunk_payload [OF l2] l1
    by (auto simp add: Len_rest)
qed

section \<open>The header decoder\<close>

lemma readHeader_ok:
  assumes "44 \<le> length (rest r)"
  shows "\<exists>h. readHeader r = Inr (h, Read_skip (advance r 44) 84)
          \<and> Header_MagicNumber h = LittleEndian_Uint16 (take 2 (drop 4 (rest r)))
          \<and> Header_Frames h = LittleEndian_Uint16 (take 2 (drop 6 (rest r)))"
  using assms unfolding readHeader_def
  by (simp add: binary_Read_eq Read_skip_eq le_diff_conv2 cong: bind_weak_cong)

lemma readHeader_short:
  assumes "length (rest r) < 44"
  shows "\<exists>e. readHeader r = Inl e \<and> truncation e"
  using assms unfolding readHeader_def
  by (simp add: binary_Read_eq bind_if cong: bind_weak_cong)

text \<open>
  C2 as the claim states it fails: the last field of the header ends at byte 44, and the
  skip of the 84 reserved bytes after it drops the result of \<^verbatim>\<open>reader.Read\<close>. A buffer of
  44 bytes, fewer than 128, gives a Header.
\<close>

theorem readHeader_44_bytes_counterexample:
  "length (replicate 44 (0::byte)) < 128
   \<and> readHeader (NewReader (replicate 44 0))
       = Inr (\<lparr>Header_FileSize = 0, Header_MagicNumber = 0,
               Header_Frames = 0, Header_Width = 0, Header_Height = 0,
               Header_ColorDepth = 0, Header_Flags = 0, Header_Speed = 0,
               Header_Transparent = 0, Header_Colors = 0,
               Header_PixelWidth = 0, Header_PixelHeight = 0,
               Header_GridX = 0, Header_GridY = 0,
               Header_GridWidth = 0, Header_GridHeight = 0\<rparr>,
              \<lparr>Reader_s = replicate 44 0, Reader_i = 44\<rparr>)"
  by code_simp

text \<open>
  C2, amended: for every buffer of fewer than 44 bytes the header decoder fails with
  \<^verbatim>\<open>io.EOF\<close> or \<^verbatim>\<open>io.ErrUnexpectedEOF\<close>; for every buffer of 44 bytes or more it returns a
  Header.
\<close>

theorem readHeader_needs_44_bytes:
  "(length data < 44 \<longrightarrow>
      (\<exists>e. readHeader (NewReader data) = Inl e \<and> (e = EOF \<or> e = ErrUnexpectedEOF)))
   \<and> (44 \<le> length data \<longrightarrow> (\<exists>h r'. readHeader (NewReader data) = Inr (h, r')))"
proof (intro conjI impI)
  assume "length data < 44"
  then have "length (rest (NewReader data)) < 44" by simp
  from readHeader_short [OF this] show
    "\<exists>e. readHeader (NewReader data) = Inl e \<and> (e = EOF \<or> e = ErrUnexpectedEOF)"
    by (auto dest: truncationD)
next
  assume "44 \<le> length data"
  then have "44 \<le> length (rest (NewReader data))" by simp
  from readHeader_ok [OF this] show "\<exists>h r'. readHeader (NewReader data) = Inr (h, r')"
    by blast
qed

theorem readHeader_needs_44_bytes_witness:
  "(\<exists>e. readHeader (NewReader (replicate 43 0)) = Inl e \<and> (e = EOF \<or> e = ErrUnexpectedEOF))
   \<and> (\<exists>h r'. readHeader (NewReader (replicate 44 0)) = Inr (h, r'))"
  using readHeader_needs_44_bytes [of "replicate 43 0"] readHeader_needs_44_bytes [of "replicate 44 0"]
  by simp

section \<open>The magic number\<close>

lemma ParseFile_short:
  assumes "length data < 44"
  shows "\<exists>e. ParseFile data = Inl (FailedToReadHeader e) \<and> truncation e"
proof -
  from assms have "length (rest (NewReader data)) < 44" by simp
  from readHeader_short [OF this] show ?thesis
    by (auto simp: ParseFile_def)
qed

lemma ParseFile_bad_magic:
  assumes "44 \<le> length data"
    and "LittleEndian_Uint16 (take 2 (drop 4 data)) \<noteq> 0xA5E0"
  shows "ParseFile data = Inl (InvalidMagicNumber (LittleEndian_Uint16 (take 2 (drop 4 data))))"
proof -
  from assms have "44 \<le> length (rest (NewReader data))" by simp
  from readHeader_ok [OF this] obtain h where
    h: "readHeader (NewReader data) = Inr (h, Read_skip (advance (NewReader data) 44) 84)"
       "Header_MagicNumber h = LittleEndian_Uint16 (take 2 (drop 4 data))"
    by auto
  with assms(2) show ?thesis
    by (simp add: ParseFile_def)
qed

text \<open>
  C3 as the claim states it fails on a buffer too short for the header: the six bytes
  below hold 0x1234 at the offset of the magic number, and the decode fails with the
  error of the header, not with the bad-magic error.
\<close>

theorem ParseFile_short_counterexample:
  "LittleEndian_Uint16 (take 2 (drop 4 [0, 0, 0, 0, 0x34, 0x12])) = 0x1234
   \<and> ParseFile [0, 0, 0, 0, 0x34, 0x12] = Inl (FailedToReadHeader EOF)"
  by code_simp

text \<open>
  C3, amended: for every buffer of at least 6 bytes whose 16-bit value at offset 4 is not
  0xA5E0, \<^verbatim>\<open>ParseFile\<close> fails and returns no File; with 44 bytes or more the error is the
  bad-magic error carrying that value, with fewer it is the header error wrapping
  \<^verbatim>\<open>io.EOF\<close> or \<^verbatim>\<open>io.ErrUnexpectedEOF\<close>.
\<close>

theorem ParseFile_magic_mismatch:
  assumes "6 \<le> length data"
    and "LittleEndian_Uint16 (take 2 (drop 4 data)) \<noteq> 0xA5E0"
  shows "(\<exists>e. ParseFile data = Inl e)
     \<and> (44 \<le> length data \<longrightarrow>
          ParseFile data = Inl (InvalidMagicNumber (LittleEndian_Uint16 (take 2 (drop 4 data)))))
     \<and> (length data < 44 \<longrightarrow>
          (\<exists>e. ParseFile data = Inl (FailedToReadHeader e) \<and> (e = EOF \<or> e = ErrUnexpectedEOF)))"
proof (cases "44 \<le> length data")
  case True
  from ParseFile_bad_magic [OF True assms(2)] True show ?thesis by simp
next
  case False
  then have "length data < 44" by simp
  from ParseFile_short [OF this] False show ?thesis by (auto dest: truncationD)
qed

theorem ParseFile_magic_mismatch_witness:
  "ParseFile (replicate 44 0) = Inl (InvalidMagicNumber 0)
   \<and> (\<exists>e. ParseFile [0, 0, 0, 0, 0x34, 0x12] = Inl (FailedToReadHeader e) \<and> (e = EOF \<or> e = ErrUnexpectedEOF))"
proof -
  have a: "6 \<le> length (replicate 44 (0::byte))" by simp
  have b: "LittleEndian_Uint16 (take 2 (drop 4 (replicate 44 0))) \<noteq> 0xA5E0" by code_simp
  have b': "LittleEndian_Uint16 (take 2 (drop 4 (replicate 44 0))) = 0" by code_simp
  have c: "6 \<le> length [0, 0, 0, 0, 0x34, 0x12 :: byte]" by simp
  have d: "LittleEndian_Uint16 (take 2 (drop 4 [0, 0, 0, 0, 0x34, 0x12])) \<noteq> 0xA5E0" by code_simp
  show ?thesis
    using ParseFile_magic_mismatch [OF a b] ParseFile_magic_mismatch [OF c d] b'
    by simp
qed

section \<open>The frame index\<close>

text \<open>
  C10: \<^verbatim>\<open>GetFrameImage\<close> returns the index error exactly for the indices at or above the
  number of frames; at every negative index the guard passes and the indexing of
  \<^verbatim>\<open>f.Frames\<close> panics. In the witness \<open>Inr\<close> stands in for zlib.
\<close>

theorem GetFrameImage_negative_index:
  "(GetFrameImage inflate f frameIndex = Inl (FrameIndexOutOfRange k)
      \<longleftrightarrow> k = frameIndex \<and> frameIndex \<ge> int (length (File_Frames f)))
   \<and> (frameIndex < 0 \<longrightarrow> GetFrameImage inflate f frameIndex = Inl PanicIndexOutOfRange)"
  by (auto simp add: GetFrameImage_def split: option.splits)

theorem GetFrameImage_negative_index_witness:
  "GetFrameImage Inr \<lparr>File_Header = example_header, File_Frames = [], File_Tags = []\<rparr> (- 1)
     = Inl PanicIndexOutOfRange
   \<and> GetFrameImage Inr \<lparr>File_Header = example_header, File_Frames = [], File_Tags = []\<rparr> 0
     = Inl (FrameIndexOutOfRange 0)"
  using GetFrameImage_negative_index
          [of Inr "\<lparr>File_Header = example_header, File_Frames = [], File_Tags = []\<rparr>" "- 1" 0]
        GetFrameImage_negative_index
          [of Inr "\<lparr>File_Header = example_header, File_Frames = [], File_Tags = []\<rparr>" 0 0]
  by simp

section \<open>The colour depth 0\<close>

lemma pixelColor_depth_0:
  "pixelColor pixels 0 pixelIndex = \<lparr>RGBA_R = 0, RGBA_G = 0, RGBA_B = 0, RGBA_A = 0\<rparr>"
  by (simp add: pixelColor_def)


section \<open>The frame decoder\<close>

lemma readFrame_loop_Inr:
  "readFrame_loop i n r acc = Inr (cs, r') \<longleftrightarrow>
     (\<exists>new. cs = acc @ new \<and> length new = n - i \<and> chunk_run r new r')"
proof (induction i n r acc rule: readFrame_loop.induct)
  case (1 i n reader chunks)
  show ?case
  proof (cases "i < n")
    case False
    then show ?thesis
      by (subst readFrame_loop.simps) auto
  next
    case True
    show ?thesis
    proof (cases "readChunk reader")
      case (Inl e)
      have "n - i \<noteq> 0" using True by simp
      then have "\<And>new. length new = n - i \<Longrightarrow> \<not> chunk_run reader new r'"
        using Inl by (case_tac new) simp_all
      then show ?thesis
        using True Inl by (subst readFrame_loop.simps) auto
    next
      case (Inr p)
      obtain c r1 where p: "p = (c, r1)" by (cases p)
      have ni: "n - i = Suc (n - (i + 1))" using True by simp
      have "readFrame_loop i n reader chunks = readFrame_loop (i + 1) n r1 (chunks @ [c])"
        using True Inr p by (subst readFrame_loop.simps) simp
      also have "\<dots> = Inr (cs, r') \<longleftrightarrow>
          (\<exists>new. cs = (chunks @ [c]) @ new \<and> length new = n - (i + 1) \<and> chunk_run r1 new r')"
        using "1.IH" [OF True Inr p [symmetric]] by simp
      also have "\<dots> \<longleftrightarrow> (\<exists>new. cs = chunks @ new \<and> length new = n - i \<and> chunk_run reader new r')"
      proof
        assume "\<exists>new. cs = (chunks @ [c]) @ new \<and> length new = n - (i + 1) \<and> chunk_run r1 new r'"
        then obtain new where "cs = chunks @ (c # new)" "length (c # new) = n - i" "chunk_run reader (c # new) r'"
          using Inr p ni by auto
        then show "\<exists>new. cs = chunks @ new \<and> length new = n - i \<and> chunk_run reader new r'"
          by blast
      next
        assume "\<exists>new. cs = chunks @ new \<and> length new = n - i \<and> chunk_run reader new r'"
        then obtain new where new: "cs = chunks @ new" "length new = n - i" "chunk_run reader new r'"
          by blast
        then obtain c' new' where n': "new = c' # new'" using ni by (cases new) simp_all
        with new Inr p ni have "c' = c" "chunk_run r1 new' r'" "length new' = n - (i + 1)" by simp_all
        with new n' show "\<exists>new. cs = (chunks @ [c]) @ new \<and> length new = n - (i + 1) \<and> chunk_run r1 new r'"
          by auto
      qed
      finally show ?thesis .
    qed
  qed
qed

lemma readFrame_loop_fail:
  "chunk_run r cs rk \<Longrightarrow> readChunk rk = Inl e \<Longrightarrow> i + length cs < n \<Longrightarrow>
   readFrame_loop i n r acc = Inl (FailedToReadChunk (i + length cs) e)"
proof (induction cs arbitrary: i r acc)
  case Nil
  then show ?case by (subst readFrame_loop.simps) simp
next
  case (Cons c cs)
  from Cons.prems(1) obtain r1 where r1: "readChunk r = Inr (c, r1)" "chunk_run r1 cs rk"
    by (auto split: sum.splits)
  have "readFrame_loop (i + 1) n r1 (acc @ [c]) = Inl (FailedToReadChunk ((i + 1) + length cs) e)"
    using Cons.prems by (intro Cons.IH r1) simp_all
  then show ?case
    using r1 Cons.prems(3) by (subst readFrame_loop.simps) simp
qed

lemma unat_numChunks:
  "unat (numChunks fh) =
     (if FrameHeader_NewChunks fh \<noteq> 0 then unat (FrameHeader_NewChunks fh)
      else unat (FrameHeader_OldChunks fh))"
  by (simp add: numChunks_def unsigned_ucast_eq take_bit_nat_eq_self
        order_less_trans [OF unsigned_less, where 'a1 = nat])

lemma ParseFile_loop_fail:
  "readFrame r = Inl e \<Longrightarrow> i < unat (Header_Frames (File_Header file)) \<Longrightarrow>
   ParseFile_loop i r file = Inl (FailedToReadFrame i e)"
  by (subst ParseFile_loop.simps) simp

text \<open>
  C6: after the frame header, \<^verbatim>\<open>readFrame\<close> returns a frame exactly when the chunks of the
  frame are the chunks read one after the other from there, and their number is the new
  chunk count when that is not 0 and the old chunk count otherwise. When a chunk read
  fails after fewer chunks than that, \<^verbatim>\<open>readFrame\<close> fails, and so does the frame loop of
  \<^verbatim>\<open>ParseFile\<close> at that frame.
\<close>

theorem readFrame_chunk_count:
  assumes "readFrameHeader r = Inr (fh, r0)"
  shows "(readFrame r = Inr (frame, r') \<longleftrightarrow>
            Frame_Header frame = fh
            \<and> length (Frame_Chunks frame)
                = (if FrameHeader_NewChunks fh \<noteq> 0 then unat (FrameHeader_NewChunks fh)
                   else unat (FrameHeader_OldChunks fh))
            \<and> chunk_run r0 (Frame_Chunks frame) r')
       \<and> (chunk_run r0 cs rk \<and> readChunk rk = Inl e
            \<and> length cs < (if FrameHeader_NewChunks fh \<noteq> 0 then unat (FrameHeader_NewChunks fh)
                            else unat (FrameHeader_OldChunks fh)) \<longrightarrow>
            readFrame r = Inl (FailedToReadChunk (length cs) e)
            \<and> (i < unat (Header_Frames (File_Header file)) \<longrightarrow>
                 ParseFile_loop i r file
                   = Inl (FailedToReadFrame i (FailedToReadChunk (length cs) e))))"
proof (intro conjI impI)
  have "readFrame r = Inr (frame, r') \<longleftrightarrow>
          (\<exists>cs. readFrame_loop 0 (unat (numChunks fh)) r0 [] = Inr (cs, r')
                \<and> frame = \<lparr>Frame_Header = fh, Frame_Chunks = cs\<rparr>)"
    using assms by (auto simp: readFrame_def bind_Inr_iff)
  also have "\<dots> \<longleftrightarrow> (\<exists>cs. length cs = unat (numChunks fh) \<and> chunk_run r0 cs r'
                \<and> frame = \<lparr>Frame_Header = fh, Frame_Chunks = cs\<rparr>)"
    by (simp add: readFrame_loop_Inr)
  also have "\<dots> \<longleftrightarrow> Frame_Header frame = fh
            \<and> length (Frame_Chunks frame) = unat (numChunks fh)
            \<and> chunk_run r0 (Frame_Chunks frame) r'"
    by (cases frame) auto
  finally show "readFrame r = Inr (frame, r') \<longleftrightarrow>
            Frame_Header frame = fh
            \<and> length (Frame_Chunks frame)
                = (if FrameHeader_NewChunks fh \<noteq> 0 then unat (FrameHeader_NewChunks fh)
                   else unat (FrameHeader_OldChunks fh))
            \<and> chunk_run r0 (Frame_Chunks frame) r'"
    by (simp only: unat_numChunks)
next
  assume a: "chunk_run r0 cs rk \<and> readChunk rk = Inl e
            \<and> length cs < (if FrameHeader_NewChunks fh \<noteq> 0 then unat (FrameHeader_NewChunks fh)
                            else unat (FrameHeader_OldChunks fh))"
  then have "0 + length cs < unat (numChunks fh)" by (simp only: unat_numChunks) simp
  with a have "readFrame_loop 0 (unat (numChunks fh)) r0 [] = Inl (FailedToReadChunk (0 + length cs) e)"
    using readFrame_loop_fail [of r0 cs rk e 0 "unat (numChunks fh)" "[]"] by simp
  with assms show f: "readFrame r = Inl (FailedToReadChunk (length cs) e)"
    by (simp add: readFrame_def)
  assume "i < unat (Header_Frames (File_Header file))"
  with f show "ParseFile_loop i r file
                   = Inl (FailedToReadFrame i (FailedToReadChunk (length cs) e))"
    by (rule ParseFile_loop_fail)
qed

theorem readFrame_chunk_count_witness:
  "readFrame (NewReader example_frame_bytes)
     = Inr (\<lparr>Frame_Header = example_frame_header, Frame_Chunks = example_chunks\<rparr>,
            \<lparr>Reader_s = example_frame_bytes, Reader_i = 30\<rparr>)
   \<and> readFrame (NewReader (take 29 example_frame_bytes))
     = Inl (FailedToReadChunk 1 ErrUnexpectedEOF)"
proof -
  have h1: "readFrameHeader (NewReader example_frame_bytes)
      = Inr (example_frame_header, \<lparr>Reader_s = example_frame_bytes, Reader_i = 16\<rparr>)"
    by code_simp
  have run1: "chunk_run \<lparr>Reader_s = example_frame_bytes, Reader_i = 16\<rparr> example_chunks
      \<lparr>Reader_s = example_frame_bytes, Reader_i = 30\<rparr>"
    by code_simp
  have n1: "length example_chunks = unat (FrameHeader_OldChunks example_frame_header)"
    "FrameHeader_NewChunks example_frame_header = 0"
    by code_simp+
  have h2: "readFrameHeader (NewReader (take 29 example_frame_bytes))
      = Inr (example_frame_header,
             \<lparr>Reader_s = take 29 example_frame_bytes, Reader_i = 16\<rparr>)"
    by code_simp
  have run2: "chunk_run \<lparr>Reader_s = take 29 example_frame_bytes, Reader_i = 16\<rparr>
      [hd example_chunks] \<lparr>Reader_s = take 29 example_frame_bytes, Reader_i = 22\<rparr>"
    by code_simp
  have fail2: "readChunk \<lparr>Reader_s = take 29 example_frame_bytes, Reader_i = 22\<rparr>
      = Inl ErrUnexpectedEOF"
    by code_simp
  have lt2: "length [hd example_chunks] < unat (FrameHeader_OldChunks example_frame_header)"
    by code_simp
  from readFrame_chunk_count [OF h1,
      of "\<lparr>Frame_Header = example_frame_header, Frame_Chunks = example_chunks\<rparr>"
         "\<lparr>Reader_s = example_frame_bytes, Reader_i = 30\<rparr>"]
    run1 n1
  have a: "readFrame (NewReader example_frame_bytes)
     = Inr (\<lparr>Frame_Header = example_frame_header, Frame_Chunks = example_chunks\<rparr>,
            \<lparr>Reader_s = example_frame_bytes, Reader_i = 30\<rparr>)"
    by simp
  from readFrame_chunk_count [OF h2, of _ _ "[hd example_chunks]"
         "\<lparr>Reader_s = take 29 example_frame_bytes, Reader_i = 22\<rparr>" ErrUnexpectedEOF]
    run2 fail2 lt2 n1
  have b: "readFrame (NewReader (take 29 example_frame_bytes))
     = Inl (FailedToReadChunk 1 ErrUnexpectedEOF)"
    by simp
  from a b show ?thesis by simp
qed

section \<open>The tags of a document\<close>

lemma fold_ParseFile_chunk:
  "fold ParseFile_chunk cs tags =
     tags @ concat (map (\<lambda>c. projr (parseTagsChunk (Chunk_Data c))) (filter parsed_tags_chunk cs))"
proof (induction cs arbitrary: tags)
  case Nil
  show ?case by simp
next
  case (Cons c cs)
  have "ParseFile_chunk c tags =
      tags @ (if parsed_tags_chunk c then projr (parseTagsChunk (Chunk_Data c)) else [])"
    by (cases "parseTagsChunk (Chunk_Data c)")
       (simp_all add: ParseFile_chunk_def parsed_tags_chunk_def)
  then show ?case
    by (simp add: Cons.IH)
qed

lemma ParseFile_chunk_failed:
  "parseTagsChunk (Chunk_Data c) = Inl e \<Longrightarrow> ParseFile_chunk c tags = tags"
  by (simp add: ParseFile_chunk_def)

lemma ParseFile_loop_frame_run:
  assumes "frame_run r frames r'"
    and "i + length frames = unat (Header_Frames (File_Header fl))"
    and "length (File_Frames fl) = unat (Header_Frames (File_Header fl))"
  shows "ParseFile_loop i r fl =
     Inr (fl\<lparr>File_Frames := take i (File_Frames fl) @ map Some frames,
               File_Tags := fold ParseFile_chunk (concat (map Frame_Chunks frames)) (File_Tags fl)\<rparr>)"
  using assms
proof (induction frames arbitrary: i r fl)
  case Nil
  then show ?case by (subst ParseFile_loop.simps) simp
next
  case (Cons f fs)
  from Cons.prems(1) obtain r1 where r1: "readFrame r = Inr (f, r1)" "frame_run r1 fs r'"
    by (auto split: sum.splits)
  let ?fl' = "fl\<lparr>File_Frames := (File_Frames fl)[i := Some f],
                     File_Tags := fold ParseFile_chunk (Frame_Chunks f) (File_Tags fl)\<rparr>"
  have i: "i < length (File_Frames fl)" using Cons.prems by simp
  have "ParseFile_loop (i + 1) r1 ?fl' =
     Inr (?fl'\<lparr>File_Frames := take (i + 1) (File_Frames ?fl') @ map Some fs,
               File_Tags := fold ParseFile_chunk (concat (map Frame_Chunks fs)) (File_Tags ?fl')\<rparr>)"
    using Cons.prems by (intro Cons.IH r1) simp_all
  moreover have "take (i + 1) ((File_Frames fl)[i := Some f]) = take i (File_Frames fl) @ [Some f]"
    using i by (simp add: take_Suc_conv_app_nth)
  ultimately show ?case
    using r1 Cons.prems(2) by (subst ParseFile_loop.simps) simp
qed

text \<open>
  C7: when the header decodes, the magic number is right and the frames the header
  counts can be read, \<^verbatim>\<open>ParseFile\<close> returns a File whatever the Tags payloads hold. Its
  tags are those of the Tags chunks whose payload parses, in order; a chunk whose payload
  fails to parse is none of them and leaves the tags collected so far as they are.
\<close>

theorem ParseFile_tags_failure_local:
  assumes "readHeader (NewReader data) = Inr (h, r)"
    and "Header_MagicNumber h = 0xA5E0"
    and "frame_run r frames r'"
    and "length frames = unat (Header_Frames h)"
  shows "ParseFile data =
           Inr \<lparr>File_Header = h, File_Frames = map Some frames,
                File_Tags = concat (map (\<lambda>c. projr (parseTagsChunk (Chunk_Data c)))
                              (filter parsed_tags_chunk (concat (map Frame_Chunks frames))))\<rparr>
     \<and> (\<forall>c \<in> set (concat (map Frame_Chunks frames)).
           isl (parseTagsChunk (Chunk_Data c)) \<longrightarrow>
             \<not> parsed_tags_chunk c \<and> (\<forall>tags. ParseFile_chunk c tags = tags))"
proof -
  let ?file = "\<lparr>File_Header = h, File_Frames = replicate (unat (Header_Frames h)) None,
                 File_Tags = []\<rparr>"
  have "ParseFile_loop 0 r ?file =
     Inr (?file\<lparr>File_Frames := take 0 (File_Frames ?file) @ map Some frames,
               File_Tags := fold ParseFile_chunk (concat (map Frame_Chunks frames)) (File_Tags ?file)\<rparr>)"
    using assms(3,4) by (intro ParseFile_loop_frame_run) simp_all
  then have "ParseFile data =
           Inr \<lparr>File_Header = h, File_Frames = map Some frames,
                File_Tags = concat (map (\<lambda>c. projr (parseTagsChunk (Chunk_Data c)))
                              (filter parsed_tags_chunk (concat (map Frame_Chunks frames))))\<rparr>"
    using assms(1,2) by (simp add: ParseFile_def fold_ParseFile_chunk)
  moreover have "\<forall>c \<in> set (concat (map Frame_Chunks frames)).
           isl (parseTagsChunk (Chunk_Data c)) \<longrightarrow>
             \<not> parsed_tags_chunk c \<and> (\<forall>tags. ParseFile_chunk c tags = tags)"
    by (auto simp: parsed_tags_chunk_def ParseFile_chunk_def split: sum.splits)
  ultimately show ?thesis by blast
qed

theorem ParseFile_tags_failure_local_witness:
  "parseTagsChunk (Chunk_Data (Frame_Chunks example_frame ! 0)) = Inl EOF
   \<and> ParseFile example_file_bytes = Inr example_file
   \<and> File_Tags example_file = [example_tag]"
proof -
  have h: "readHeader (NewReader example_file_bytes)
      = Inr (example_header, \<lparr>Reader_s = example_file_bytes, Reader_i = 128\<rparr>)"
    by code_simp
  have m: "Header_MagicNumber example_header = 0xA5E0" by code_simp
  have run: "frame_run \<lparr>Reader_s = example_file_bytes, Reader_i = 128\<rparr> [example_frame]
      \<lparr>Reader_s = example_file_bytes, Reader_i = 238\<rparr>"
    by code_simp
  have n: "length [example_frame] = unat (Header_Frames example_header)" by code_simp
  have tags: "concat (map (\<lambda>c. projr (parseTagsChunk (Chunk_Data c)))
                 (filter parsed_tags_chunk (concat (map Frame_Chunks [example_frame]))))
      = [example_tag]"
    by code_simp
  have bad: "parseTagsChunk (Chunk_Data (Frame_Chunks example_frame ! 0)) = Inl EOF"
    by code_simp
  have "ParseFile example_file_bytes = Inr example_file"
    using ParseFile_tags_failure_local [OF h m run n] tags
    by (simp add: example_file_def)
  with bad show ?thesis by (simp add: example_file_def)
qed

section \<open>The tag decoder\<close>

lemma LittleEndian_put_uint16 [simp]:
  "LittleEndian_Uint16 (put_uint16 v @ bs) = v"
  unfolding put_uint16_def
  by (simp, rule bit_word_eqI) (auto simp: bit_simps)

lemma length_put_uint16 [simp]: "length (put_uint16 v) = 2"
  by (simp add: put_uint16_def)

lemma take_2_put_uint16 [simp]: "take 2 (put_uint16 v @ bs) = put_uint16 v"
  by (simp add: put_uint16_def)

lemma drop_2_put_uint16 [simp]: "drop 2 (put_uint16 v @ bs) = bs"
  by (simp add: put_uint16_def)

lemma LittleEndian_put_uint16' [simp]:
  "LittleEndian_Uint16 (put_uint16 v) = v"
  using LittleEndian_put_uint16 [of v "[]"] by simp

lemma unat_of_nat_16: "n < 2 ^ 16 \<Longrightarrow> unat (of_nat n :: uint16) = n"
  by (simp add: unat_of_nat)

lemma length_7_D:
  "length (xs::'a list) = 7 \<Longrightarrow> \<exists>a b c d e f g. xs = [a, b, c, d, e, f, g]"
  by (auto simp: length_Suc_conv eval_nat_numeral)

lemma length_3_D:
  "length (xs::'a list) = 3 \<Longrightarrow> \<exists>a b c. xs = [a, b, c]"
  by (auto simp: length_Suc_conv eval_nat_numeral)

lemma readTag_encode:
  assumes wf: "well_formed_record (res, tag)"
    and r: "rest r = encode_tag (res, tag) @ tail"
  shows "\<exists>r'. readTag r = Inr (tag, r') \<and> rest r' = tail"
proof -
  from wf obtain a b c d e f g where res: "res = [a, b, c, d, e, f, g]"
    using length_7_D [of res] by (auto simp: well_formed_record_def)
  from wf obtain c1 c2 c3 where col: "Tag_Color tag = [c1, c2, c3]"
    using length_3_D [of "Tag_Color tag"] by (auto simp: well_formed_record_def)
  from wf have n: "unat (of_nat (length (Tag_Name tag)) :: uint16) = length (Tag_Name tag)"
    by (simp add: well_formed_record_def unat_of_nat_16)
  have r': "rest r =
      put_uint16 (Tag_FromFrame tag) @ put_uint16 (Tag_ToFrame tag) @ Tag_Direction tag
        # put_uint16 (Tag_Repeat tag) @ a # b # c # d # e # f # c1 # c2 # c3 # g
        # put_uint16 (of_nat (length (Tag_Name tag))) @ Tag_Name tag @ tail"
    using r by (simp add: encode_tag_def res col)
  have "\<exists>r'. readTag r = Inr (\<lparr>Tag_Name = Tag_Name tag, Tag_FromFrame = Tag_FromFrame tag,
           Tag_ToFrame = Tag_ToFrame tag, Tag_Direction = Tag_Direction tag,
           Tag_Repeat = Tag_Repeat tag, Tag_Color = Tag_Color tag\<rparr>, r') \<and> rest r' = tail"
    unfolding readTag_def
    by (simp add: binary_Read_eq binary_Read_bytes3_def ReadFull_eq r' n col
          cong: bind_weak_cong)
  then show ?thesis by (cases tag) simp
qed

lemma parseTagsChunk_loop_encode:
  assumes "\<forall>rec \<in> set recs. well_formed_record rec"
    and "rest r = concat (map encode_tag recs) @ tail"
    and "i + length recs = n"
  shows "parseTagsChunk_loop i n r acc = Inr (acc @ map snd recs)"
  using assms
proof (induction recs arbitrary: i r acc)
  case Nil
  then show ?case by (subst parseTagsChunk_loop.simps) simp
next
  case (Cons rec recs)
  obtain res tag where rec: "rec = (res, tag)" by (cases rec)
  from Cons.prems(1) rec have wf: "well_formed_record (res, tag)" by simp
  from Cons.prems(2) rec have "rest r = encode_tag (res, tag) @ (concat (map encode_tag recs) @ tail)"
    by simp
  from readTag_encode [OF wf this] obtain r' where
    r': "readTag r = Inr (tag, r')" "rest r' = concat (map encode_tag recs) @ tail"
    by blast
  have "parseTagsChunk_loop (i + 1) n r' (acc @ [tag]) = Inr ((acc @ [tag]) @ map snd recs)"
    using Cons.prems by (intro Cons.IH r') simp_all
  then show ?case
    using r' Cons.prems(3) rec by (subst parseTagsChunk_loop.simps) simp
qed

text \<open>
  C9: for a payload that encodes K records (K below \<open>2^16\<close>, each name shorter than
  \<open>2^16\<close> bytes, as the 16-bit fields require), whatever follows it, \<^verbatim>\<open>parseTagsChunk\<close>
  returns the K tags in the order of the records, each with the name bytes of its record.
\<close>

theorem parseTagsChunk_encode_tags:
  assumes "length recs < 2 ^ 16"
    and "length reserved = 8"
    and "\<forall>rec \<in> set recs. well_formed_record rec"
  shows "parseTagsChunk (encode_tags reserved recs @ trailing) = Inr (map snd recs)
     \<and> length (map snd recs) = length recs
     \<and> (\<forall>k < length recs. Tag_Name (map snd recs ! k) = Tag_Name (snd (recs ! k)))"
proof -
  have n: "unat (of_nat (length recs) :: uint16) = length recs"
    using assms(1) by (rule unat_of_nat_16)
  have "parseTagsChunk_loop 0 (length recs)
          (Read_skip (advance (NewReader (encode_tags reserved recs @ trailing)) 2) 8) []
        = Inr ([] @ map snd recs)"
    using assms(2,3) by (intro parseTagsChunk_loop_encode [where tail = trailing])
      (simp_all add: encode_tags_def)
  then have "parseTagsChunk (encode_tags reserved recs @ trailing) = Inr (map snd recs)"
    unfolding parseTagsChunk_def
    by (simp add: binary_Read_eq n encode_tags_def cong: bind_weak_cong)
  then show ?thesis by simp
qed

theorem parseTagsChunk_encode_tags_witness:
  "encode_tags (replicate 8 0) [hd example_records] = Chunk_Data (Frame_Chunks example_frame ! 1)
   \<and> parseTagsChunk (encode_tags (replicate 8 0) example_records @ [9, 9])
       = Inr [example_tag,
              \<lparr>Tag_Name = [], Tag_FromFrame = 2, Tag_ToFrame = 0x0105, Tag_Direction = 3,
               Tag_Repeat = 0xFFFF, Tag_Color = [1, 2, 3]\<rparr>]"
proof -
  have a: "length example_records < 2 ^ 16" by (simp add: example_records_def)
  have b: "length (replicate 8 (0::byte)) = 8" by simp
  have c: "\<forall>rec \<in> set example_records. well_formed_record rec"
    by (simp add: example_records_def well_formed_record_def example_tag_def)
  have d: "encode_tags (replicate 8 0) [hd example_records]
      = Chunk_Data (Frame_Chunks example_frame ! 1)"
    by code_simp
  have e: "map snd example_records = [example_tag,
              \<lparr>Tag_Name = [], Tag_FromFrame = 2, Tag_ToFrame = 0x0105, Tag_Direction = 3,
               Tag_Repeat = 0xFFFF, Tag_Color = [1, 2, 3]\<rparr>]"
    by (simp add: example_records_def)
  show ?thesis
    using parseTagsChunk_encode_tags [OF a b c, of "[9, 9]"] d e by simp
qed

section \<open>Unsupported cels\<close>

lemma parseCelChunk_unsupported:
  assumes "11 \<le> length data"
    and "LittleEndian_Uint16 (take 2 (drop 7 data)) \<noteq> 2"
  shows "parseCelChunk inflate data
           = Inl (UnsupportedCelType (LittleEndian_Uint16 (take 2 (drop 7 data))))"
  using assms unfolding parseCelChunk_def
  by (simp add: binary_Read_eq le_diff_conv2 cong: bind_weak_cong)

lemma parseCelChunk_short:
  assumes "length data < 11"
  shows "\<exists>e. parseCelChunk inflate data = Inl e \<and> truncation e"
  using assms unfolding parseCelChunk_def
  by (auto simp add: binary_Read_eq bind_if cong: bind_weak_cong)

lemma GetFrameImage_chunk_eq:
  "GetFrameImage_chunk inflate colorDepth c img =
     (if decoded_cel_chunk inflate c
      then compositeCel colorDepth (projr (parseCelChunk inflate (Chunk_Data c))) img
      else img)"
  by (cases "parseCelChunk inflate (Chunk_Data c)")
     (simp_all add: GetFrameImage_chunk_def decoded_cel_chunk_def compositeCel_def)

lemma fold_GetFrameImage_chunk:
  "fold (GetFrameImage_chunk inflate colorDepth) chunks img =
     fold (compositeCel colorDepth) (decodedCels inflate chunks) img"
  by (induction chunks arbitrary: img)
     (simp_all add: decodedCels_def GetFrameImage_chunk_eq)

text \<open>
  C4 as the claim states it fails on a cel payload cut short after the type code: the
  nine bytes below hold the cel type 1, and the decoder fails with \<^verbatim>\<open>io.EOF\<close> at the
  z-index, not with the unsupported-type error.
\<close>

theorem parseCelChunk_truncated_counterexample:
  "LittleEndian_Uint16 (take 2 (drop 7 [0, 0, 0, 0, 0, 0, 255, 1, 0])) = 1
   \<and> parseCelChunk Inr [0, 0, 0, 0, 0, 0, 255, 1, 0] = Inl EOF"
  by code_simp

text \<open>
  C4, amended: at a frame index in range, \<^verbatim>\<open>GetFrameImage\<close> returns the canvas on which
  every cel that decodes has been composited, in chunk order. A cel payload of at least
  11 bytes whose type code is not 2 fails with the unsupported-type error, a shorter one
  with \<^verbatim>\<open>io.EOF\<close> or \<^verbatim>\<open>io.ErrUnexpectedEOF\<close>; either way the chunk is not among the
  decoded ones and the extraction goes on.
\<close>

theorem GetFrameImage_skips_unsupported_cels:
  assumes "k < length (File_Frames f)"
    and "File_Frames f ! k = Some frame"
  shows "GetFrameImage inflate f (int k) =
           Inr (fold (compositeCel (Header_ColorDepth (File_Header f)))
                     (decodedCels inflate (Frame_Chunks frame))
                     (NewRGBA (unat (Header_Width (File_Header f)))
                              (unat (Header_Height (File_Header f)))))
     \<and> (\<forall>c \<in> set (Frame_Chunks frame).
           11 \<le> length (Chunk_Data c)
           \<and> LittleEndian_Uint16 (take 2 (drop 7 (Chunk_Data c))) \<noteq> 2 \<longrightarrow>
             parseCelChunk inflate (Chunk_Data c)
               = Inl (UnsupportedCelType (LittleEndian_Uint16 (take 2 (drop 7 (Chunk_Data c)))))
             \<and> \<not> decoded_cel_chunk inflate c)
     \<and> (\<forall>c \<in> set (Frame_Chunks frame).
           length (Chunk_Data c) < 11 \<longrightarrow>
             (\<exists>e. parseCelChunk inflate (Chunk_Data c) = Inl e
                  \<and> (e = EOF \<or> e = ErrUnexpectedEOF))
             \<and> \<not> decoded_cel_chunk inflate c)"
proof (intro conjI ballI impI)
  show "GetFrameImage inflate f (int k) =
           Inr (fold (compositeCel (Header_ColorDepth (File_Header f)))
                     (decodedCels inflate (Frame_Chunks frame))
                     (NewRGBA (unat (Header_Width (File_Header f)))
                              (unat (Header_Height (File_Header f)))))"
    using assms by (simp add: GetFrameImage_def fold_GetFrameImage_chunk)
next
  fix c :: Chunk
  assume "11 \<le> length (Chunk_Data c)
           \<and> LittleEndian_Uint16 (take 2 (drop 7 (Chunk_Data c))) \<noteq> 2"
  then have u: "parseCelChunk inflate (Chunk_Data c)
               = Inl (UnsupportedCelType (LittleEndian_Uint16 (take 2 (drop 7 (Chunk_Data c)))))"
    by (intro parseCelChunk_unsupported) simp_all
  then show "parseCelChunk inflate (Chunk_Data c)
               = Inl (UnsupportedCelType (LittleEndian_Uint16 (take 2 (drop 7 (Chunk_Data c)))))" .
  from u show "\<not> decoded_cel_chunk inflate c"
    by (simp add: decoded_cel_chunk_def)
next
  fix c :: Chunk
  assume "length (Chunk_Data c) < 11"
  from parseCelChunk_short [OF this, of inflate]
  obtain e where e: "parseCelChunk inflate (Chunk_Data c) = Inl e" "truncation e" by blast
  then show "\<exists>e. parseCelChunk inflate (Chunk_Data c) = Inl e
                  \<and> (e = EOF \<or> e = ErrUnexpectedEOF)"
    by (auto dest: truncationD)
  from e show "\<not> decoded_cel_chunk inflate c"
    by (simp add: decoded_cel_chunk_def)
qed

theorem GetFrameImage_skips_unsupported_cels_witness:
  "parseCelChunk Inr (Chunk_Data (Frame_Chunks example_frame ! 2)) = Inl (UnsupportedCelType 1)
   \<and> GetFrameImage Inr example_file 0
       = Inr \<lparr>Image_Pix = [\<lparr>RGBA_R = 0, RGBA_G = 0, RGBA_B = 0, RGBA_A = 0\<rparr>,
                          \<lparr>RGBA_R = 200, RGBA_G = 200, RGBA_B = 200, RGBA_A = 255\<rparr>],
              Image_Dx = 2, Image_Dy = 1\<rparr>"
proof -
  have k: "0 < length (File_Frames example_file)" by code_simp
  have fr: "File_Frames example_file ! 0 = Some example_frame" by code_simp
  have c: "Frame_Chunks example_frame ! 2 \<in> set (Frame_Chunks example_frame)" by code_simp
  have len: "11 \<le> length (Chunk_Data (Frame_Chunks example_frame ! 2))" by code_simp
  have ty: "LittleEndian_Uint16 (take 2 (drop 7 (Chunk_Data (Frame_Chunks example_frame ! 2)))) = 1"
    by code_simp
  have img: "fold (compositeCel (Header_ColorDepth (File_Header example_file)))
                     (decodedCels Inr (Frame_Chunks example_frame))
                     (NewRGBA (unat (Header_Width (File_Header example_file)))
                              (unat (Header_Height (File_Header example_file))))
       = \<lparr>Image_Pix = [\<lparr>RGBA_R = 0, RGBA_G = 0, RGBA_B = 0, RGBA_A = 0\<rparr>,
                          \<lparr>RGBA_R = 200, RGBA_G = 200, RGBA_B = 200, RGBA_A = 255\<rparr>],
              Image_Dx = 2, Image_Dy = 1\<rparr>"
    by code_simp
  from GetFrameImage_skips_unsupported_cels [OF k fr, of Inr] c len ty img
  show ?thesis by auto
qed

end
